theory Spec2Isabelle
  imports Complex_Main "HOL-Library.Word"
begin

unbundle bit_operations_syntax

section \<open>Data model of RectangleRenderer.ts\<close>

text \<open>
  The renderer keeps two typed arrays of 32-bit floats (the rectangle attributes and the
  selection vertices) and one array of bytes (the outline indices). A float slot is modelled
  by the exact rational it is assigned; the rounding of a store into binary32 is not part of
  the model. Cell colour codes are the entries of a \<open>Uint32Array\<close>; they are only compared
  and used as indices, so they are natural numbers here.
\<close>

datatype error = TypeError | RangeError

record IColor =
  rgba :: "32 word"

record IColorSet =
  foreground :: IColor
  background :: IColor
  selection :: IColor
  ansi :: "IColor list"

text \<open>
  The collaborators the renderer holds by reference: \<open>_terminal\<close> (rows, cols),
  \<open>_dimensions\<close> (scaledCellWidth, scaledCellHeight) and \<open>_colorManager.colors\<close>.
\<close>

record renderer_env =
  rows :: nat
  cols :: nat
  scaledCellWidth :: rat
  scaledCellHeight :: rat
  colors :: IColorSet

record IRenderModel =
  cells :: "nat list"

record ISelectionRenderModel =
  hasSelection :: bool
  viewportStartRow :: int
  viewportEndRow :: int
  viewportCappedStartRow :: int
  viewportCappedEndRow :: int
  startCol :: int
  endCol :: int

record IVertices =
  attributes :: "rat list"
  count :: nat

record ISelectionVertices =
  vertices :: "rat list"
  outlineIndices :: "8 word list"

text \<open>The mutable fields of the class (\<open>m_x\<close> is the private field \<open>_x\<close>).\<close>

record RectangleRenderer =
  m_bgFloat :: "rat list"
  m_selectionFloat :: "rat list"
  m_vertices :: IVertices
  m_selectionVertices :: ISelectionVertices

definition INDICES_PER_RECTANGLE :: nat where
  "INDICES_PER_RECTANGLE = 8"

definition INITIAL_BUFFER_RECTANGLE_CAPACITY :: nat where
  "INITIAL_BUFFER_RECTANGLE_CAPACITY = 20 * INDICES_PER_RECTANGLE"

definition SELECTION_VERTEX_COUNT :: nat where
  "SELECTION_VERTEX_COUNT = 10"

definition SELECTION_OUTLINE_INDEX_COUNT :: nat where
  "SELECTION_OUTLINE_INDEX_COUNT = 16"

text \<open>
  Modelled from the spec: the constants \<open>DEFAULT_COLOR\<close> and \<open>INVERTED_DEFAULT_COLOR\<close> of
  atlas/Types, missing from the sources. The spec gives the colour codes as a 256-entry
  palette (0 to 255) plus two sentinels; they are the next two codes here.
\<close>

definition DEFAULT_COLOR :: nat where
  "DEFAULT_COLOR = 256"

definition INVERTED_DEFAULT_COLOR :: nat where
  "INVERTED_DEFAULT_COLOR = 257"

text \<open>
  Modelled from the spec: \<open>is256Color\<close> of atlas/CharAtlasUtils, missing from the sources.
  The spec's indexed palette entries are the codes 0 to 255. The argument is what a typed
  array read gave: \<open>None\<close> is JavaScript's \<open>undefined\<close>, which is no palette index.
\<close>

definition is256Color :: "nat option \<Rightarrow> bool" where
  "is256Color colorCode = (case colorCode of None \<Rightarrow> False | Some c \<Rightarrow> c < 256)"

subsection \<open>Typed arrays\<close>

text \<open>
  Reading a typed array past its end gives \<open>undefined\<close> (\<open>None\<close>). A store past the end is
  dropped without an error, which is what \<open>xs[i := v]\<close> does in HOL. \<open>set\<close> copies a source
  array to the front of the target and throws a RangeError when the source is longer.
\<close>

definition typed_get :: "'a list \<Rightarrow> nat \<Rightarrow> 'a option" where
  "typed_get arr i = (if i < length arr then Some (arr ! i) else None)"

definition typed_set :: "'a list \<Rightarrow> 'a list \<Rightarrow> error + 'a list" where
  "typed_set arr src =
     (if length src \<le> length arr then Inr (src @ drop (length src) arr) else Inl RangeError)"

text \<open>
  Modelled from the spec: \<open>fill\<close> of common/TypedArrayUtils, missing from the sources. The
  spec calls its use a zero-fill of the vertex buffer: every slot from \<open>start\<close> to the end
  of the array receives \<open>value\<close>.
\<close>

definition fill :: "'a list \<Rightarrow> 'a \<Rightarrow> nat \<Rightarrow> 'a list" where
  "fill arr v start = take start arr @ replicate (length arr - start) v"

text \<open>
  Modelled from the spec: \<open>expandFloat32Array\<close> of WebglUtils, missing from the sources. The
  spec's buffer contract: if the current length is below \<open>minFloats\<close>, reallocate to a new
  buffer at least \<open>minFloats\<close> long (grow by doubling or grow to fit the grid size, whichever
  is larger) and copy the existing contents; otherwise the buffer stays as it is. The slots
  of a new \<open>Float32Array\<close> beyond the copy are zero.
\<close>

definition expandFloat32Array :: "rat list \<Rightarrow> nat \<Rightarrow> rat list" where
  "expandFloat32Array source minFloats =
     (if length source < minFloats
      then source @ replicate (max (2 * length source) minFloats - length source) 0
      else source)"

subsection \<open>Colours\<close>

text \<open>
  \<open>(color.rgba >> s) & 0xFF\<close>: the shift is JavaScript's signed shift of the 32-bit value.
\<close>

definition channel :: "IColor \<Rightarrow> nat \<Rightarrow> rat" where
  "channel color s = of_nat (unat (signed_drop_bit s (rgba color) AND 0xFF)) / 255"

definition colorToFloat32Array :: "IColor \<Rightarrow> rat list" where
  "colorToFloat32Array color =
     [channel color 24, channel color 16, channel color 8, channel color 0]"

definition updateCachedColors :: "renderer_env \<Rightarrow> RectangleRenderer \<Rightarrow> RectangleRenderer" where
  "updateCachedColors env st =
     st\<lparr>m_bgFloat := colorToFloat32Array (background (colors env)),
        m_selectionFloat := colorToFloat32Array (selection (colors env))\<rparr>"

text \<open>The field initialisers and the last line of the constructor.\<close>

definition new_renderer :: "renderer_env \<Rightarrow> RectangleRenderer" where
  "new_renderer env =
     updateCachedColors env
       \<lparr>m_bgFloat = [], m_selectionFloat = [],
        m_vertices = \<lparr>attributes = replicate INITIAL_BUFFER_RECTANGLE_CAPACITY 0, count = 0\<rparr>,
        m_selectionVertices =
          \<lparr>vertices = replicate (SELECTION_VERTEX_COUNT * 4) 0,
           outlineIndices = replicate SELECTION_OUTLINE_INDEX_COUNT 0\<rparr>\<rparr>"

section \<open>updateSelection\<close>

text \<open>The local constants of \<open>updateSelection\<close>, one definition each.\<close>

definition sel_startRow :: "ISelectionRenderModel \<Rightarrow> int" where
  "sel_startRow model = viewportCappedStartRow model"

definition sel_endRow :: "ISelectionRenderModel \<Rightarrow> int" where
  "sel_endRow model = viewportCappedEndRow model"

definition sel_startCol :: "ISelectionRenderModel \<Rightarrow> int" where
  "sel_startCol model =
     (if viewportStartRow model = sel_startRow model then startCol model else 0)"

definition sel_endCol :: "renderer_env \<Rightarrow> ISelectionRenderModel \<Rightarrow> int" where
  "sel_endCol env model =
     (if viewportEndRow model = sel_endRow model then endCol model else int (cols env))"

definition sel_startRowEndCol :: "renderer_env \<Rightarrow> ISelectionRenderModel \<Rightarrow> int" where
  "sel_startRowEndCol env model =
     (if sel_startRow model = sel_endRow model then endCol model else int (cols env))"

definition sel_middleRowsCount :: "ISelectionRenderModel \<Rightarrow> int" where
  "sel_middleRowsCount model = max (sel_endRow model - sel_startRow model - 1) 0"

text \<open>The sixteen floats written in column-select mode (vertices v0 to v3).\<close>

definition column_vertices :: "renderer_env \<Rightarrow> ISelectionRenderModel \<Rightarrow> rat list" where
  "column_vertices env model =
     (let w = scaledCellWidth env; h = scaledCellHeight env;
          v0x = sel_startCol model; v0y = sel_startRow model;
          v1x = sel_endCol env model; v1y = sel_startRow model;
          v2x = sel_startCol model; v2y = sel_endRow model + 1;
          v3x = sel_endCol env model; v3y = sel_endRow model + 1
      in [w * of_int v0x, h * of_int v0y, 1, 1,
          w * of_int v1x, h * of_int v1y, -1, 1,
          w * of_int v2x, h * of_int v2y, 1, 1,
          w * of_int v3x, h * of_int v3y, -1, 1])"

text \<open>The forty floats written in range-select mode (vertices v0 to v9).\<close>

definition range_vertices :: "renderer_env \<Rightarrow> ISelectionRenderModel \<Rightarrow> rat list" where
  "range_vertices env model =
     (let w = scaledCellWidth env; h = scaledCellHeight env;
          v0x = sel_startCol model; v0y = sel_startRow model;
          v4x = 0; v4y = v0y + 1;
          v6x = sel_startRowEndCol env model; v6y = v4y + sel_middleRowsCount model;
          v9x = sel_endCol env model; v9y = sel_endRow model + 1
      in [w * of_int v0x, h * of_int v0y, 1, 1,
          w * of_int v6x, h * of_int v0y, -1, 1,
          w * of_int v0x, h * of_int v4y, 1, 1,
          w * of_int v6x, h * of_int v4y, -1, 1,
          w * of_int v4x, h * of_int v4y, 1, 1,
          w * of_int v4x, h * of_int v6y, 1, 1,
          w * of_int v6x, h * of_int v6y, -1, -1,
          w * of_int v9x, h * of_int v6y, -1, -1,
          w * of_int v4x, h * of_int v9y, 1, -1,
          w * of_int v9x, h * of_int v9y, -1, -1])"

definition range_outline :: "renderer_env \<Rightarrow> ISelectionRenderModel \<Rightarrow> 8 word list" where
  "range_outline env model =
     (if sel_endRow model - sel_startRow model = 0
        then [0, 1, 1, 3, 3, 2, 2, 0, 0, 0, 0, 0, 0, 0, 0, 0]
      else if sel_endRow model - sel_startRow model = 1 \<and> sel_startCol model > sel_endCol env model
        then [0, 1, 1, 3, 3, 2, 2, 0, 5, 7, 7, 9, 9, 8, 8, 5]
      else [0, 1, 1, 6, 6, 7, 7, 9, 9, 8, 8, 4, 4, 2, 2, 0])"

definition updateSelection ::
  "renderer_env \<Rightarrow> ISelectionRenderModel \<Rightarrow> bool \<Rightarrow> RectangleRenderer \<Rightarrow> error + RectangleRenderer"
where
  "updateSelection env model columnSelectMode st =
     (let sv = m_selectionVertices st in
      if \<not> hasSelection model then
        Inr (st\<lparr>m_selectionVertices := sv\<lparr>vertices := fill (vertices sv) 0 0\<rparr>\<rparr>)
      else if columnSelectMode then
        (case typed_set (vertices sv) (column_vertices env model) of
           Inl e \<Rightarrow> Inl e
         | Inr vs \<Rightarrow>
             (case typed_set (outlineIndices sv) [0, 1, 1, 3, 3, 2, 2, 0, 0, 0, 0, 0, 0, 0, 0, 0] of
                Inl e \<Rightarrow> Inl e
              | Inr idx \<Rightarrow>
                  Inr (st\<lparr>m_selectionVertices :=
                           \<lparr>vertices = fill vs 0 (4 * 4), outlineIndices = idx\<rparr>\<rparr>)))
      else
        (case typed_set (vertices sv) (range_vertices env model) of
           Inl e \<Rightarrow> Inl e
         | Inr vs \<Rightarrow>
             (case typed_set (outlineIndices sv) (range_outline env model) of
                Inl e \<Rightarrow> Inl e
              | Inr idx \<Rightarrow>
                  Inr (st\<lparr>m_selectionVertices := \<lparr>vertices = vs, outlineIndices = idx\<rparr>\<rparr>))))"

section \<open>updateBackgrounds\<close>

text \<open>
  A \<open>for (let i = lo; i < hi; i++)\<close> loop whose body may throw: the body receives the index
  and the loop state, and an exception ends the loop.
\<close>

function for_loop :: "nat \<Rightarrow> nat \<Rightarrow> (nat \<Rightarrow> 's \<Rightarrow> error + 's) \<Rightarrow> 's \<Rightarrow> error + 's" where
  "for_loop i n body s =
     (if i < n then (case body i s of Inl e \<Rightarrow> Inl e | Inr s' \<Rightarrow> for_loop (Suc i) n body s')
      else Inr s)"
  by pat_completeness auto
termination
  by (relation "measure (\<lambda>(i, n, body, s). n - i)") auto

declare for_loop.simps [simp del]

definition then_do :: "error + 'a \<Rightarrow> ('a \<Rightarrow> error + 'b) \<Rightarrow> error + 'b" where
  "then_do r f = (case r of Inl e \<Rightarrow> Inl e | Inr x \<Rightarrow> f x)"

text \<open>
  The first lines of \<open>_updateRectangle\<close>: \<open>None\<close> is the \<open>null\<close> the variable \<open>color\<close> starts
  with, or the \<open>undefined\<close> of a palette read past its end.
\<close>

definition resolveColor :: "renderer_env \<Rightarrow> nat option \<Rightarrow> IColor option" where
  "resolveColor env bg =
     (if bg = Some INVERTED_DEFAULT_COLOR then Some (foreground (colors env))
      else if is256Color bg then
        (case bg of None \<Rightarrow> None | Some c \<Rightarrow> typed_get (ansi (colors env)) c)
      else None)"

definition addRectangle ::
  "rat list \<Rightarrow> nat \<Rightarrow> rat \<Rightarrow> rat \<Rightarrow> rat \<Rightarrow> rat \<Rightarrow> rat \<Rightarrow> rat \<Rightarrow> rat \<Rightarrow> rat \<Rightarrow> rat list"
where
  "addRectangle array offset x1 y1 width height r g b a =
     array[offset := x1, offset + 1 := y1, offset + 2 := width, offset + 3 := height,
           offset + 4 := r, offset + 5 := g, offset + 6 := b, offset + 7 := a]"

definition addRectangleFloat ::
  "rat list \<Rightarrow> nat \<Rightarrow> rat \<Rightarrow> rat \<Rightarrow> rat \<Rightarrow> rat \<Rightarrow> rat list \<Rightarrow> rat list"
where
  "addRectangleFloat array offset x1 y1 width height color =
     array[offset := x1, offset + 1 := y1, offset + 2 := width, offset + 3 := height,
           offset + 4 := color ! 0, offset + 5 := color ! 1,
           offset + 6 := color ! 2, offset + 7 := color ! 3]"

text \<open>
  \<open>_updateRectangle\<close>. Dereferencing \<open>color.rgba\<close> on \<open>null\<close> or \<open>undefined\<close> throws a
  TypeError.
\<close>

definition updateRectangle ::
  "renderer_env \<Rightarrow> IVertices \<Rightarrow> nat \<Rightarrow> nat option \<Rightarrow> int \<Rightarrow> nat \<Rightarrow> nat \<Rightarrow> error + IVertices"
where
  "updateRectangle env vs offset bg startX endX y =
     (let color = resolveColor env bg;
          vs1 = (if length (attributes vs) < offset + 4
                 then vs\<lparr>attributes :=
                        expandFloat32Array (attributes vs)
                          (rows env * cols env * INDICES_PER_RECTANGLE)\<rparr>
                 else vs);
          x1 = of_int startX * scaledCellWidth env;
          y1 = of_nat y * scaledCellHeight env
      in case color of
           None \<Rightarrow> Inl TypeError
         | Some c \<Rightarrow>
             (let r = channel c 24; g = channel c 16; b = channel c 8
              in Inr (vs1\<lparr>attributes :=
                        addRectangle (attributes vs1) offset x1 y1
                          (of_int (int endX - startX) * scaledCellWidth env)
                          (scaledCellHeight env) r g b 1\<rparr>)))"

text \<open>The variables of the nested iteration of \<open>updateBackgrounds\<close>.\<close>

record scan_state =
  rectangleCount :: nat
  currentStartX :: int
  currentBg :: "nat option"
  scan_vertices :: IVertices

text \<open>\<open>const offset = rectangleCount++ * INDICES_PER_RECTANGLE; this._updateRectangle(...)\<close>\<close>

definition emit_rectangle :: "renderer_env \<Rightarrow> nat \<Rightarrow> nat \<Rightarrow> scan_state \<Rightarrow> error + scan_state" where
  "emit_rectangle env endX y s =
     (let offset = rectangleCount s * INDICES_PER_RECTANGLE in
      case updateRectangle env (scan_vertices s) offset (currentBg s) (currentStartX s) endX y of
        Inl e \<Rightarrow> Inl e
      | Inr vs \<Rightarrow> Inr (s\<lparr>rectangleCount := rectangleCount s + 1, scan_vertices := vs\<rparr>))"

text \<open>The body of the loop over the columns \<open>x\<close>.\<close>

definition col_step :: "renderer_env \<Rightarrow> IRenderModel \<Rightarrow> nat \<Rightarrow> nat \<Rightarrow> scan_state \<Rightarrow> error + scan_state" where
  "col_step env model y x s =
     (let modelIndex = ((y * cols env) + x) * 4;
          bg = typed_get (cells model) (modelIndex + 2)
      in if bg \<noteq> currentBg s then
           then_do
             (if currentBg s \<noteq> Some DEFAULT_COLOR then emit_rectangle env x y s else Inr s)
             (\<lambda>s1. Inr (s1\<lparr>currentStartX := int x, currentBg := bg\<rparr>))
         else Inr s)"

text \<open>After the columns: finish the rectangle if it is still going.\<close>

definition finish_row :: "renderer_env \<Rightarrow> nat \<Rightarrow> scan_state \<Rightarrow> error + scan_state" where
  "finish_row env y s =
     (if currentBg s \<noteq> Some DEFAULT_COLOR then emit_rectangle env (cols env) y s else Inr s)"

text \<open>The body of the loop over the rows \<open>y\<close>.\<close>

definition row_step :: "renderer_env \<Rightarrow> IRenderModel \<Rightarrow> nat \<Rightarrow> scan_state \<Rightarrow> error + scan_state" where
  "row_step env model y s =
     then_do
       (for_loop 0 (cols env) (col_step env model y)
          (s\<lparr>currentStartX := -1, currentBg := Some DEFAULT_COLOR\<rparr>))
       (finish_row env y)"

definition updateBackgrounds ::
  "renderer_env \<Rightarrow> IRenderModel \<Rightarrow> RectangleRenderer \<Rightarrow> error + RectangleRenderer"
where
  "updateBackgrounds env model st =
     then_do
       (for_loop 0 (rows env) (row_step env model)
          \<lparr>rectangleCount = 1, currentStartX = -1, currentBg = Some DEFAULT_COLOR,
           scan_vertices = m_vertices st\<rparr>)
       (\<lambda>s. Inr (st\<lparr>m_vertices := (scan_vertices s)\<lparr>count := rectangleCount s\<rparr>\<rparr>))"

section \<open>The viewport rectangle\<close>

definition updateViewportRectangle :: "renderer_env \<Rightarrow> RectangleRenderer \<Rightarrow> RectangleRenderer" where
  "updateViewportRectangle env st =
     st\<lparr>m_vertices := (m_vertices st)\<lparr>attributes :=
          addRectangleFloat (attributes (m_vertices st)) 0 0 0
            (of_nat (cols env) * scaledCellWidth env)
            (of_nat (rows env) * scaledCellHeight env)
            (m_bgFloat st)\<rparr>\<rparr>"

definition onResize :: "renderer_env \<Rightarrow> RectangleRenderer \<Rightarrow> RectangleRenderer" where
  "onResize env st = updateViewportRectangle env st"

definition onThemeChanged :: "renderer_env \<Rightarrow> RectangleRenderer \<Rightarrow> RectangleRenderer" where
  "onThemeChanged env st = updateViewportRectangle env (updateCachedColors env st)"

section \<open>Notions used to state the properties\<close>

subsection \<open>Well-formed inputs\<close>

text \<open>
  The attribute buffer starts with 160 slots and is only ever replaced by
  \<open>expandFloat32Array\<close> applied to a multiple of eight, so its length is a positive multiple
  of eight in every state the class can reach.
\<close>

definition buffer_ok :: "rat list \<Rightarrow> bool" where
  "buffer_ok a \<longleftrightarrow> 8 dvd length a \<and> 0 < length a"

text \<open>The colour codes of row \<open>y\<close>, as \<open>updateBackgrounds\<close> reads them from \<open>model.cells\<close>.\<close>

definition grid_row :: "renderer_env \<Rightarrow> IRenderModel \<Rightarrow> nat \<Rightarrow> nat list" where
  "grid_row env model y = map (\<lambda>x. cells model ! ((y * cols env + x) * 4 + 2)) [0..<cols env]"

text \<open>The cell array holds four entries for each of the rows times cols cells.\<close>

definition grid_ok :: "renderer_env \<Rightarrow> IRenderModel \<Rightarrow> bool" where
  "grid_ok env model \<longleftrightarrow> rows env * cols env * 4 \<le> length (cells model)"

text \<open>A code that \<open>_updateRectangle\<close> finds a colour for.\<close>

definition resolvable :: "renderer_env \<Rightarrow> nat \<Rightarrow> bool" where
  "resolvable env c \<longleftrightarrow> c = INVERTED_DEFAULT_COLOR \<or> (c < 256 \<and> c < length (ansi (colors env)))"

definition codes_ok :: "renderer_env \<Rightarrow> IRenderModel \<Rightarrow> bool" where
  "codes_ok env model \<longleftrightarrow>
     (\<forall>y\<in>{0..<rows env}. \<forall>c\<in>set (grid_row env model y). c = DEFAULT_COLOR \<or> resolvable env c)"

definition palette_complete :: "renderer_env \<Rightarrow> bool" where
  "palette_complete env \<longleftrightarrow> 256 \<le> length (ansi (colors env))"

text \<open>Every cell is the default, the inverted default or a palette index from 0 to 255.\<close>

definition codes_in_palette :: "renderer_env \<Rightarrow> IRenderModel \<Rightarrow> bool" where
  "codes_in_palette env model \<longleftrightarrow>
     (\<forall>y\<in>{0..<rows env}. \<forall>c\<in>set (grid_row env model y).
        c = DEFAULT_COLOR \<or> c = INVERTED_DEFAULT_COLOR \<or> c < 256)"

subsection \<open>Runs, as the spec words them\<close>

text \<open>
  A run is a maximal horizontal sequence of cells of one row that share one non-default
  colour: the cells \<open>s\<close> up to \<open>e - 1\<close> have the colour of cell \<open>s\<close>, the cell before \<open>s\<close> and
  the cell at \<open>e\<close> (where the row has them) have another one.
\<close>

definition is_run :: "nat list \<Rightarrow> nat \<Rightarrow> nat \<Rightarrow> bool" where
  "is_run row s e \<longleftrightarrow>
     s < e \<and> e \<le> length row \<and> row ! s \<noteq> DEFAULT_COLOR
     \<and> (\<forall>k\<in>{s..<e}. row ! k = row ! s)
     \<and> (s = 0 \<or> row ! (s - 1) \<noteq> row ! s)
     \<and> (e = length row \<or> row ! e \<noteq> row ! s)"

definition maximal_runs :: "nat list \<Rightarrow> (nat \<times> nat) list" where
  "maximal_runs row =
     filter (\<lambda>(s, e). is_run row s e) (List.product [0..<length row] [0..<Suc (length row)])"

definition run_count :: "renderer_env \<Rightarrow> IRenderModel \<Rightarrow> nat" where
  "run_count env model = (\<Sum>y\<leftarrow>[0..<rows env]. length (maximal_runs (grid_row env model y)))"

subsection \<open>Rectangles and pixels\<close>

text \<open>Slot \<open>k\<close> of the attribute buffer: the eight floats of rectangle \<open>k\<close>.\<close>

definition slot :: "rat list \<Rightarrow> nat \<Rightarrow> rat list" where
  "slot a k = take 8 (drop (8 * k) a)"

text \<open>
  Whether a record \<open>x, y, width, height, ...\<close> covers the point \<open>(px, py)\<close>, and whether the
  cell at column \<open>x\<close> of row \<open>y\<close> does: a rectangle covers its left and top edges and not
  its right and bottom ones, so that neighbouring cells share no point.
\<close>

definition rect_covers :: "rat list \<Rightarrow> rat \<Rightarrow> rat \<Rightarrow> bool" where
  "rect_covers r px py \<longleftrightarrow>
     r ! 0 \<le> px \<and> px < r ! 0 + r ! 2 \<and> r ! 1 \<le> py \<and> py < r ! 1 + r ! 3"

definition cell_covers :: "renderer_env \<Rightarrow> nat \<Rightarrow> nat \<Rightarrow> rat \<Rightarrow> rat \<Rightarrow> bool" where
  "cell_covers env x y px py \<longleftrightarrow>
     of_nat x * scaledCellWidth env \<le> px
     \<and> px < of_nat x * scaledCellWidth env + scaledCellWidth env
     \<and> of_nat y * scaledCellHeight env \<le> py
     \<and> py < of_nat y * scaledCellHeight env + scaledCellHeight env"

text \<open>The colour the spec resolves a non-default code to.\<close>

definition spec_color :: "renderer_env \<Rightarrow> nat \<Rightarrow> IColor" where
  "spec_color env c =
     (if c = INVERTED_DEFAULT_COLOR then foreground (colors env) else ansi (colors env) ! c)"

text \<open>The record of the viewport rectangle.\<close>

definition viewport_rect :: "renderer_env \<Rightarrow> rat list" where
  "viewport_rect env =
     [0, 0, of_nat (cols env) * scaledCellWidth env, of_nat (rows env) * scaledCellHeight env]
       @ colorToFloat32Array (background (colors env))"

subsection \<open>The buffers of a renderer state, and the outline\<close>

definition sel_outline :: "RectangleRenderer \<Rightarrow> 8 word list" where
  "sel_outline st = outlineIndices (m_selectionVertices st)"

definition sel_floats :: "RectangleRenderer \<Rightarrow> rat list" where
  "sel_floats st = vertices (m_selectionVertices st)"

definition rect_floats :: "RectangleRenderer \<Rightarrow> rat list" where
  "rect_floats st = attributes (m_vertices st)"

definition rect_count :: "RectangleRenderer \<Rightarrow> nat" where
  "rect_count st = count (m_vertices st)"

text \<open>
  The index array is read as pairs, one line segment each. The spec's degenerate segment
  repeats a vertex index; the others are the active ones.
\<close>

fun segments :: "'a list \<Rightarrow> ('a \<times> 'a) list" where
  "segments (a # b # rest) = (a, b) # segments rest"
| "segments rest = []"

definition active_segments :: "8 word list \<Rightarrow> (8 word \<times> 8 word) list" where
  "active_segments idx = filter (\<lambda>(a, b). a \<noteq> b) (segments idx)"

text \<open>
  Vertex \<open>i\<close> of the selection vertex buffer: its four floats. The outline index arrays the
  code writes name the vertices 0 to 9 only.
\<close>

definition vertex :: "rat list \<Rightarrow> nat \<Rightarrow> rat list" where
  "vertex v i = take 4 (drop (4 * i) v)"

definition outline_in_range :: "8 word list \<Rightarrow> bool" where
  "outline_in_range idx \<longleftrightarrow> (\<forall>i\<in>set idx. unat i < SELECTION_VERTEX_COUNT)"

subsection \<open>The trace of the scan\<close>

text \<open>
  The runs \<open>(y, bg, startX, endX)\<close> for which the scan of a row calls \<open>_updateRectangle\<close>, in
  the order of the calls: \<open>scan_runs x sx cur cs\<close> is the scan at column \<open>x\<close> with
  \<open>currentStartX = sx\<close>, \<open>currentBg = cur\<close> and the cells \<open>cs\<close> still to come.
\<close>

fun scan_runs :: "nat \<Rightarrow> int \<Rightarrow> nat \<Rightarrow> nat list \<Rightarrow> (nat \<times> int \<times> nat) list" where
  "scan_runs x sx cur [] = (if cur \<noteq> DEFAULT_COLOR then [(cur, sx, x)] else [])"
| "scan_runs x sx cur (c # cs) =
     (if c \<noteq> cur
      then (if cur \<noteq> DEFAULT_COLOR then [(cur, sx, x)] else []) @ scan_runs (Suc x) (int x) c cs
      else scan_runs (Suc x) sx cur cs)"

definition row_trace :: "renderer_env \<Rightarrow> IRenderModel \<Rightarrow> nat \<Rightarrow> (nat \<times> int \<times> nat) list" where
  "row_trace env model y = scan_runs 0 (- 1) DEFAULT_COLOR (grid_row env model y)"

definition grid_runs :: "renderer_env \<Rightarrow> IRenderModel \<Rightarrow> nat \<Rightarrow> (nat \<times> nat \<times> int \<times> nat) list" where
  "grid_runs env model y0 =
     concat (map (\<lambda>y. map (Pair y) (row_trace env model y)) [y0..<rows env])"

text \<open>The eight floats \<open>_updateRectangle\<close> stores for a run.\<close>

definition run_floats :: "renderer_env \<Rightarrow> nat \<times> nat \<times> int \<times> nat \<Rightarrow> rat list" where
  "run_floats env r =
     (case r of (y, bg, sx, ex) \<Rightarrow>
        [of_int sx * scaledCellWidth env, of_nat y * scaledCellHeight env,
         of_int (int ex - sx) * scaledCellWidth env, scaledCellHeight env,
         channel (spec_color env bg) 24, channel (spec_color env bg) 16,
         channel (spec_color env bg) 8, 1])"

definition grid_rects :: "renderer_env \<Rightarrow> IRenderModel \<Rightarrow> nat \<Rightarrow> rat list list" where
  "grid_rects env model y0 =
     concat (map (\<lambda>y. map (\<lambda>r. run_floats env (y, r)) (row_trace env model y)) [y0..<rows env])"

text \<open>
  What \<open>_updateRectangle\<close> does to the attribute buffer when it stores the record \<open>r\<close> in
  slot \<open>k\<close> (lines 401 to 403, then \<open>_addRectangle\<close>), and what the calls for a list of
  records do, slot after slot.
\<close>

definition place :: "renderer_env \<Rightarrow> rat list \<Rightarrow> nat \<Rightarrow> rat list \<Rightarrow> rat list" where
  "place env a k r =
     (let a1 = (if length a < k * 8 + 4
                then expandFloat32Array a (rows env * cols env * 8) else a)
      in addRectangle a1 (k * 8) (r ! 0) (r ! 1) (r ! 2) (r ! 3) (r ! 4) (r ! 5) (r ! 6) (r ! 7))"

fun place_all :: "renderer_env \<Rightarrow> rat list \<Rightarrow> nat \<Rightarrow> rat list list \<Rightarrow> rat list" where
  "place_all env a k [] = a"
| "place_all env a k (r # rs) = place_all env (place env a k r) (Suc k) rs"

text \<open>What a stretch of the scan that stores the records \<open>rects\<close> does to the loop state.\<close>

definition extends :: "renderer_env \<Rightarrow> scan_state \<Rightarrow> rat list list \<Rightarrow> scan_state \<Rightarrow> bool" where
  "extends env s rects s' \<longleftrightarrow>
     rectangleCount s' = rectangleCount s + length rects
     \<and> count (scan_vertices s') = count (scan_vertices s)
     \<and> attributes (scan_vertices s') =
           place_all env (attributes (scan_vertices s)) (rectangleCount s) rects"

text \<open>
  The renderer state \<open>st'\<close> after a call of \<open>updateBackgrounds\<close> in the state \<open>st\<close>: the
  count, and the buffer with the records of the grid behind slot 0 as far as it reaches. It
  falls one slot short only for a grid in which every cell starts a run, with exactly
  rows * cols * 8 floats.
\<close>

definition redrawn ::
  "renderer_env \<Rightarrow> IRenderModel \<Rightarrow> RectangleRenderer \<Rightarrow> RectangleRenderer \<Rightarrow> bool"
where
  "redrawn env model st st' \<longleftrightarrow>
     rect_count st' = 1 + length (grid_rects env model 0)
     \<and> buffer_ok (rect_floats st')
     \<and> length (rect_floats st) \<le> length (rect_floats st')
     \<and> take (8 * rect_count st') (rect_floats st') =
          take (length (rect_floats st'))
            (take 8 (rect_floats st) @ concat (grid_rects env model 0))
     \<and> (8 * rect_count st' \<le> length (rect_floats st')
          \<or> (rect_count st' = rows env * cols env + 1
              \<and> length (rect_floats st') = 8 * (rows env * cols env)))
     \<and> (rows env * cols env * 8 \<le> length (rect_floats st)
            \<longrightarrow> length (rect_floats st') = length (rect_floats st))
     \<and> slot (rect_floats st') 0 = slot (rect_floats st) 0"

text \<open>
  The state of the scan of a row before column \<open>x\<close>: \<open>cur\<close> is the colour of the cell
  before \<open>x\<close> (the default at the start of the row) and, when it is not the default, the
  cells from \<open>sx\<close> up to \<open>x - 1\<close> have it and the cell before \<open>sx\<close> has not.
\<close>

definition scan_at :: "nat list \<Rightarrow> nat \<Rightarrow> int \<Rightarrow> nat \<Rightarrow> bool" where
  "scan_at row x sx cur \<longleftrightarrow>
     x \<le> length row \<and> (x = 0 \<longrightarrow> cur = DEFAULT_COLOR) \<and> (0 < x \<longrightarrow> row ! (x - 1) = cur)
     \<and> (cur \<noteq> DEFAULT_COLOR \<longrightarrow>
           0 \<le> sx \<and> nat sx < x \<and> (\<forall>k\<in>{nat sx..<x}. row ! k = cur)
           \<and> (sx = 0 \<or> row ! (nat sx - 1) \<noteq> cur))"

section \<open>Concrete inputs\<close>

definition example_palette :: "IColor list" where
  "example_palette =
     [\<lparr>rgba = 0x000000FF\<rparr>, \<lparr>rgba = 0xCD0000FF\<rparr>] @ replicate 254 \<lparr>rgba = 0x00CD00FF\<rparr>"

definition example_colors :: IColorSet where
  "example_colors = \<lparr>foreground = \<lparr>rgba = 0xFFFFFFFF\<rparr>, background = \<lparr>rgba = 0x000000FF\<rparr>,
     selection = \<lparr>rgba = 0x4D4D4DFF\<rparr>, ansi = example_palette\<rparr>"

text \<open>A terminal of 24 rows and 80 columns, with cells of 10 by 20 pixels.\<close>

definition example_env :: renderer_env where
  "example_env = \<lparr>rows = 24, cols = 80, scaledCellWidth = 10, scaledCellHeight = 20,
     colors = example_colors\<rparr>"

definition no_selection :: ISelectionRenderModel where
  "no_selection = \<lparr>hasSelection = False, viewportStartRow = 0, viewportEndRow = 0,
     viewportCappedStartRow = 0, viewportCappedEndRow = 0, startCol = 0, endCol = 0\<rparr>"

text \<open>Rows 2 to 5, from column 3 to column 7.\<close>

definition four_rows :: ISelectionRenderModel where
  "four_rows = \<lparr>hasSelection = True, viewportStartRow = 2, viewportEndRow = 5,
     viewportCappedStartRow = 2, viewportCappedEndRow = 5, startCol = 3, endCol = 7\<rparr>"

text \<open>
  A selection that starts at column 5 of the last visible row (23) and ends at column 2 of
  row 30, below the viewport.
\<close>

definition below_viewport :: ISelectionRenderModel where
  "below_viewport = \<lparr>hasSelection = True, viewportStartRow = 23, viewportEndRow = 30,
     viewportCappedStartRow = 23, viewportCappedEndRow = 23, startCol = 5, endCol = 2\<rparr>"

text \<open>
  Three rows of seven cells whose colours alternate between palette entries 0 and 1: 21 runs,
  more than the 19 the initial buffer has room for behind slot 0.
\<close>

definition env_g :: renderer_env where
  "env_g = \<lparr>rows = 3, cols = 7, scaledCellWidth = 10, scaledCellHeight = 20,
     colors = example_colors\<rparr>"

definition grid_g :: IRenderModel where
  "grid_g = \<lparr>cells = concat (map (\<lambda>i. [0, 0, i mod 2, 0]) [0..<21])\<rparr>"

text \<open>
  Four rows of five cells whose colours alternate between palette entries 0 and 1: every
  cell starts a run, 20 runs in all, and rows * cols * 8 is 160, the length of the initial
  buffer.
\<close>

definition env_w :: renderer_env where
  "env_w = \<lparr>rows = 4, cols = 5, scaledCellWidth = 10, scaledCellHeight = 20,
     colors = example_colors\<rparr>"

definition grid_w :: IRenderModel where
  "grid_w = \<lparr>cells = concat (map (\<lambda>i. [0, 0, i mod 2, 0]) [0..<20])\<rparr>"

text \<open>The state after the selection of four rows has been drawn in range-select mode.\<close>

definition after_four_rows :: RectangleRenderer where
  "after_four_rows =
     (case updateSelection example_env four_rows False (new_renderer example_env) of
        Inr st \<Rightarrow> st | Inl e \<Rightarrow> new_renderer example_env)"

section \<open>The scan of updateBackgrounds, step by step\<close>

lemma addRectangle_eq:
  assumes "offset + 8 \<le> length a"
  shows "addRectangle a offset x1 y1 w h r g b al =
           take offset a @ [x1, y1, w, h, r, g, b, al] @ drop (offset + 8) a"
proof (rule nth_equalityI)
  show "length (addRectangle a offset x1 y1 w h r g b al) =
        length (take offset a @ [x1, y1, w, h, r, g, b, al] @ drop (offset + 8) a)"
    using assms by (simp add: addRectangle_def)
next
  fix i assume "i < length (addRectangle a offset x1 y1 w h r g b al)"
  then have i: "i < length a" by (simp add: addRectangle_def)
  consider "i < offset" | "i = offset" | "i = offset + 1" | "i = offset + 2" | "i = offset + 3"
    | "i = offset + 4" | "i = offset + 5" | "i = offset + 6" | "i = offset + 7" | "offset + 8 \<le> i"
    by linarith
  then show "addRectangle a offset x1 y1 w h r g b al ! i =
        (take offset a @ [x1, y1, w, h, r, g, b, al] @ drop (offset + 8) a) ! i"
  proof cases
    case 10
    then have "i - offset = Suc (Suc (Suc (Suc (Suc (Suc (Suc (Suc (i - (offset + 8)))))))))" by simp
    with 10 i assms show ?thesis
      by (simp add: addRectangle_def nth_append)
  qed (use i assms in \<open>simp_all add: addRectangle_def nth_append\<close>)
qed

lemma addRectangle_beyond:
  "length a \<le> offset \<Longrightarrow> addRectangle a offset x1 y1 w h r g b al = a"
  by (simp add: addRectangle_def list_update_beyond)

lemma length_addRectangle: "length (addRectangle a offset x1 y1 w h r g b al) = length a"
  by (simp add: addRectangle_def)

lemma length_expandFloat32Array:
  "length (expandFloat32Array a m) = (if length a < m then max (2 * length a) m else length a)"
  by (simp add: expandFloat32Array_def max_def)

lemma expandFloat32Array_keeps: "length a \<le> length (expandFloat32Array a m)"
  by (auto simp: length_expandFloat32Array max_def)

lemma expandFloat32Array_full: "m \<le> length a \<Longrightarrow> expandFloat32Array a m = a"
  by (simp add: expandFloat32Array_def)

lemma expandFloat32Array_doubles:
  "length a < m \<Longrightarrow> 2 * length a \<le> length (expandFloat32Array a m)"
  by (auto simp: length_expandFloat32Array max_def)

lemma expandFloat32Array_dvd:
  "8 dvd length a \<Longrightarrow> 8 dvd m \<Longrightarrow> 8 dvd length (expandFloat32Array a m)"
  by (simp add: length_expandFloat32Array max_def)

lemma take_expandFloat32Array:
  "k \<le> length a \<Longrightarrow> take k (expandFloat32Array a m) = take k a"
  by (simp add: expandFloat32Array_def)

lemma resolveColor_Some:
  assumes "resolvable env c"
  shows "resolveColor env (Some c) = Some (spec_color env c)"
  using assms
  by (auto simp: resolvable_def resolveColor_def spec_color_def is256Color_def typed_get_def
      INVERTED_DEFAULT_COLOR_def)

lemma updateRectangle_place:
  assumes "resolvable env c"
  shows "updateRectangle env vs (k * INDICES_PER_RECTANGLE) (Some c) sx ex y =
           Inr (vs\<lparr>attributes := place env (attributes vs) k (run_floats env (y, c, sx, ex))\<rparr>)"
  using assms
  by (simp add: updateRectangle_def resolveColor_Some Let_def place_def run_floats_def
      INDICES_PER_RECTANGLE_def)

lemma place_all_append:
  "place_all env a k (rs @ rs') = place_all env (place_all env a k rs) (k + length rs) rs'"
  by (induction rs arbitrary: a k) simp_all

lemma extends_refl: "extends env s [] s"
  by (simp add: extends_def)

lemma extends_trans:
  assumes "extends env s r1 s1" "extends env s1 r2 s2"
  shows "extends env s (r1 @ r2) s2"
  using assms unfolding extends_def by (simp add: place_all_append)

lemma emit_rectangle_ok:
  assumes cur: "currentBg s = Some c" and res: "resolvable env c"
  shows "\<exists>s'. emit_rectangle env ex y s = Inr s'
      \<and> currentBg s' = currentBg s \<and> currentStartX s' = currentStartX s
      \<and> extends env s [run_floats env (y, c, currentStartX s, ex)] s'"
  using cur updateRectangle_place [OF res, of "scan_vertices s" "rectangleCount s"]
  by (simp add: emit_rectangle_def Let_def extends_def)

lemma cell_index_bound:
  assumes "y < (r::nat)" "x < c"
  shows "(y * c + x) * 4 + 2 < r * c * 4"
proof -
  have "y * c + x < Suc y * c" using assms by simp
  also have "\<dots> \<le> r * c" using assms by (intro mult_le_mono1) simp
  finally show ?thesis by simp
qed

lemma cell_read:
  assumes "grid_ok env model" "y < rows env" "x < cols env"
  shows "typed_get (cells model) ((y * cols env + x) * 4 + 2) = Some (grid_row env model y ! x)"
  using assms cell_index_bound [of y "rows env" x "cols env"]
  by (simp add: typed_get_def grid_ok_def grid_row_def)

lemma col_loop:
  assumes "n = cols env - x" "x \<le> cols env" "y < rows env" "grid_ok env model"
    "currentBg s = Some cur" "cur = DEFAULT_COLOR \<or> resolvable env cur"
    "\<forall>c\<in>set (drop x (grid_row env model y)). c = DEFAULT_COLOR \<or> resolvable env c"
  shows "\<exists>s'. then_do (for_loop x (cols env) (col_step env model y) s) (finish_row env y) = Inr s'
      \<and> extends env s
           (map (\<lambda>r. run_floats env (y, r)) (scan_runs x (currentStartX s) cur (drop x (grid_row env model y)))) s'"
  using assms
proof (induction n arbitrary: x s cur)
  case 0
  then have x: "x = cols env" by simp
  then have dr: "drop x (grid_row env model y) = []" by (simp add: grid_row_def)
  have loop: "for_loop x (cols env) (col_step env model y) s = Inr s"
    using x by (subst for_loop.simps) simp
  show ?case
  proof (cases "cur = DEFAULT_COLOR")
    case True
    with 0 loop dr show ?thesis
      by (simp add: then_do_def finish_row_def extends_refl)
  next
    case False
    with 0 have "resolvable env cur" by simp
    from emit_rectangle_ok [OF \<open>currentBg s = Some cur\<close> this, of "cols env" y]
    show ?thesis using False loop dr 0 x
      by (auto simp: then_do_def finish_row_def)
  qed
next
  case (Suc n)
  then have x: "x < cols env" by simp
  define row where "row = grid_row env model y"
  have lrow: "length row = cols env" by (simp add: row_def grid_row_def)
  have dr: "drop x row = row ! x # drop (Suc x) row"
    using x lrow by (simp add: Cons_nth_drop_Suc)
  have rd: "typed_get (cells model) ((y * cols env + x) * 4 + 2) = Some (row ! x)"
    unfolding row_def using Suc.prems x by (intro cell_read) simp_all
  have rx: "row ! x = DEFAULT_COLOR \<or> resolvable env (row ! x)"
    using Suc.prems(7) dr by (simp add: row_def)
  have rest: "\<forall>c\<in>set (drop (Suc x) row). c = DEFAULT_COLOR \<or> resolvable env c"
    using Suc.prems(7) dr by (simp add: row_def)
  have unroll: "for_loop x (cols env) (col_step env model y) s =
      then_do (col_step env model y x s) (for_loop (Suc x) (cols env) (col_step env model y))"
    using x by (subst for_loop.simps) (simp add: then_do_def)
  have nx: "n = cols env - Suc x" "Suc x \<le> cols env" using Suc.prems by simp_all
  have IH: "\<exists>s'. then_do (for_loop (Suc x) (cols env) (col_step env model y) s1) (finish_row env y) = Inr s'
      \<and> extends env s1
           (map (\<lambda>r. run_floats env (y, r)) (scan_runs (Suc x) (currentStartX s1) c1 (drop (Suc x) row))) s'"
    if "currentBg s1 = Some c1" "c1 = DEFAULT_COLOR \<or> resolvable env c1" for s1 c1
    unfolding row_def
    by (rule Suc.IH [OF nx \<open>y < rows env\<close> \<open>grid_ok env model\<close> that(1,2) rest [unfolded row_def]])
  show ?case
  proof (cases "row ! x = cur")
    case True
    then have step: "col_step env model y x s = Inr s"
      using rd Suc.prems by (simp add: col_step_def Let_def)
    from IH [OF Suc.prems(5,6)]
    obtain s' where "then_do (for_loop (Suc x) (cols env) (col_step env model y) s) (finish_row env y) = Inr s'"
      "extends env s (map (\<lambda>r. run_floats env (y, r)) (scan_runs (Suc x) (currentStartX s) cur (drop (Suc x) row))) s'"
      by blast
    then show ?thesis using True dr unroll step
      by (auto simp: then_do_def row_def [symmetric])
  next
    case False
    show ?thesis
    proof (cases "cur = DEFAULT_COLOR")
      case True
      define s1 where "s1 = s\<lparr>currentStartX := int x, currentBg := Some (row ! x)\<rparr>"
      have step: "col_step env model y x s = Inr s1"
        using rd Suc.prems False True by (simp add: col_step_def Let_def then_do_def s1_def)
      have "currentBg s1 = Some (row ! x)" by (simp add: s1_def)
      from IH [OF this rx]
      obtain s' where s': "then_do (for_loop (Suc x) (cols env) (col_step env model y) s1) (finish_row env y) = Inr s'"
        "extends env s1 (map (\<lambda>r. run_floats env (y, r)) (scan_runs (Suc x) (int x) (row ! x) (drop (Suc x) row))) s'"
        by (auto simp: s1_def)
      from s'(2) have "extends env s (map (\<lambda>r. run_floats env (y, r)) (scan_runs (Suc x) (int x) (row ! x) (drop (Suc x) row))) s'"
        by (simp add: extends_def s1_def)
      then show ?thesis using True False dr unroll step s'(1)
        by (auto simp: then_do_def row_def [symmetric])
    next
      case nd: False
      with Suc.prems have res: "resolvable env cur" by simp
      from emit_rectangle_ok [OF \<open>currentBg s = Some cur\<close> res, of x y]
      obtain s0 where s0: "emit_rectangle env x y s = Inr s0"
        "extends env s [run_floats env (y, cur, currentStartX s, x)] s0"
        by blast
      define s1 where "s1 = s0\<lparr>currentStartX := int x, currentBg := Some (row ! x)\<rparr>"
      have step: "col_step env model y x s = Inr s1"
        using rd Suc.prems False nd s0(1) by (simp add: col_step_def Let_def then_do_def s1_def)
      have e01: "extends env s [run_floats env (y, cur, currentStartX s, x)] s1"
        using s0(2) by (simp add: s1_def extends_def)
      have "currentBg s1 = Some (row ! x)" by (simp add: s1_def)
      from IH [OF this rx]
      obtain s' where s': "then_do (for_loop (Suc x) (cols env) (col_step env model y) s1) (finish_row env y) = Inr s'"
        "extends env s1 (map (\<lambda>r. run_floats env (y, r)) (scan_runs (Suc x) (int x) (row ! x) (drop (Suc x) row))) s'"
        by (auto simp: s1_def)
      from extends_trans [OF e01 s'(2)] show ?thesis using False nd dr unroll step s'(1)
        by (auto simp: then_do_def row_def [symmetric])
    qed
  qed
qed

lemma row_step_ok:
  assumes y: "y < rows env" and grid: "grid_ok env model" and codes: "codes_ok env model"
  shows "\<exists>s'. row_step env model y s = Inr s'
      \<and> extends env s (map (\<lambda>r. run_floats env (y, r)) (row_trace env model y)) s'"
proof -
  define s0 where "s0 = s\<lparr>currentStartX := - 1, currentBg := Some DEFAULT_COLOR\<rparr>"
  have all: "\<forall>c\<in>set (drop 0 (grid_row env model y)). c = DEFAULT_COLOR \<or> resolvable env c"
    using codes y by (simp add: codes_ok_def)
  have "currentBg s0 = Some DEFAULT_COLOR" by (simp add: s0_def)
  from col_loop [OF _ _ y grid this _ all, of "cols env"]
  obtain s' where s': "then_do (for_loop 0 (cols env) (col_step env model y) s0) (finish_row env y) = Inr s'"
    "extends env s0 (map (\<lambda>r. run_floats env (y, r)) (scan_runs 0 (currentStartX s0) DEFAULT_COLOR
        (drop 0 (grid_row env model y)))) s'"
    by auto
  from s'(2) have "extends env s (map (\<lambda>r. run_floats env (y, r)) (row_trace env model y)) s'"
    by (simp add: extends_def s0_def row_trace_def)
  with s'(1) show ?thesis by (auto simp: row_step_def s0_def)
qed

lemma row_loop:
  assumes "n = rows env - y" "y \<le> rows env" "grid_ok env model" "codes_ok env model"
  shows "\<exists>s'. for_loop y (rows env) (row_step env model) s = Inr s'
      \<and> extends env s (grid_rects env model y) s'"
  using assms
proof (induction n arbitrary: y s)
  case 0
  then have "for_loop y (rows env) (row_step env model) s = Inr s"
    by (subst for_loop.simps) simp
  with 0 show ?case by (simp add: grid_rects_def extends_refl)
next
  case (Suc n)
  then have y: "y < rows env" by simp
  from row_step_ok [OF y Suc.prems(3,4)]
  obtain s1 where s1: "row_step env model y s = Inr s1"
    "extends env s (map (\<lambda>r. run_floats env (y, r)) (row_trace env model y)) s1"
    by blast
  have nx: "n = rows env - Suc y" "Suc y \<le> rows env" using Suc.prems by simp_all
  from Suc.IH [OF nx Suc.prems(3,4)]
  obtain s' where s': "for_loop (Suc y) (rows env) (row_step env model) s1 = Inr s'"
    "extends env s1 (grid_rects env model (Suc y)) s'"
    by blast
  have "for_loop y (rows env) (row_step env model) s = Inr s'"
    using y s1(1) s'(1) by (subst for_loop.simps) simp
  moreover have "grid_rects env model y =
      map (\<lambda>r. run_floats env (y, r)) (row_trace env model y) @ grid_rects env model (Suc y)"
    using y by (simp add: grid_rects_def upt_conv_Cons)
  ultimately show ?case using extends_trans [OF s1(2) s'(2)] by simp
qed

lemma updateBackgrounds_count:
  assumes grid: "grid_ok env model" and codes: "codes_ok env model"
  shows "\<exists>st'. updateBackgrounds env model st = Inr st'
      \<and> m_bgFloat st' = m_bgFloat st \<and> m_selectionFloat st' = m_selectionFloat st
      \<and> m_selectionVertices st' = m_selectionVertices st
      \<and> count (m_vertices st') = 1 + length (grid_rects env model 0)
      \<and> attributes (m_vertices st') =
            place_all env (attributes (m_vertices st)) 1 (grid_rects env model 0)"
proof -
  define s0 where "s0 = \<lparr>rectangleCount = 1, currentStartX = - 1,
      currentBg = Some DEFAULT_COLOR, scan_vertices = m_vertices st\<rparr>"
  from row_loop [OF _ _ grid codes, of "rows env" 0]
  obtain s' where s': "for_loop 0 (rows env) (row_step env model) s0 = Inr s'"
    "extends env s0 (grid_rects env model 0) s'"
    by auto
  have "updateBackgrounds env model st
      = Inr (st\<lparr>m_vertices := (scan_vertices s')\<lparr>count := rectangleCount s'\<rparr>\<rparr>)"
    using s'(1) by (simp add: updateBackgrounds_def then_do_def s0_def)
  with s'(2) show ?thesis
    by (simp add: extends_def s0_def)
qed

section \<open>The buffer after updateBackgrounds\<close>

lemma grid_rects_runs: "grid_rects env model y0 = map (run_floats env) (grid_runs env model y0)"
  by (simp add: grid_rects_def grid_runs_def map_concat comp_def)

lemma length_run_floats: "length (run_floats env r) = 8"
  by (cases r) (simp add: run_floats_def)

lemma record_of_nths:
  assumes "length r = 8"
  shows "[r ! 0, r ! 1, r ! 2, r ! 3, r ! 4, r ! 5, r ! 6, r ! 7] = r"
proof -
  from assms obtain x0 x1 x2 x3 x4 x5 x6 x7 where "r = [x0, x1, x2, x3, x4, x5, x6, x7]"
    by (auto simp: eval_nat_numeral length_Suc_conv)
  then show ?thesis by simp
qed

lemma length_concat_records:
  "\<forall>r\<in>set rs. length r = 8 \<Longrightarrow> length (concat rs) = 8 * length rs"
  by (induction rs) simp_all

subsection \<open>One record\<close>

text \<open>
  The record lands in its slot when the buffer has room for it, or is shorter than
  rows * cols * 8 floats and so is replaced by one of at least twice its length.
\<close>

lemma place_lands:
  assumes dv: "8 dvd length a" and le: "8 * k \<le> length a" and k: "0 < k"
    and r: "length r = 8"
    and room: "8 * Suc k \<le> length a \<or> length a < rows env * cols env * 8"
  shows "8 dvd length (place env a k r) \<and> length a \<le> length (place env a k r)
      \<and> 8 * Suc k \<le> length (place env a k r)
      \<and> take (8 * Suc k) (place env a k r) = take (8 * k) a @ r"
proof -
  define m where "m = rows env * cols env * 8"
  define a1 where "a1 = (if length a < k * 8 + 4 then expandFloat32Array a m else a)"
  from dv obtain j where j: "length a = 8 * j" by (auto simp: dvd_def)
  have len1: "k * 8 + 8 \<le> length a1"
  proof (cases "length a < k * 8 + 4")
    case True
    with j le have eq: "length a = 8 * k" by arith
    with room have "length a < m" by (simp add: m_def)
    from expandFloat32Array_doubles [OF this] eq k True show ?thesis by (simp add: a1_def)
  next
    case False
    with j have "k * 8 + 8 \<le> length a" by arith
    with False show ?thesis by (simp add: a1_def)
  qed
  have "8 dvd m" by (simp add: m_def)
  then have dv1: "8 dvd length a1" using dv by (simp add: a1_def expandFloat32Array_dvd)
  have ge1: "length a \<le> length a1" by (simp add: a1_def expandFloat32Array_keeps)
  have tk: "take (k * 8) a1 = take (k * 8) a"
    using le by (simp add: a1_def take_expandFloat32Array mult.commute)
  have "place env a k r =
      addRectangle a1 (k * 8) (r ! 0) (r ! 1) (r ! 2) (r ! 3) (r ! 4) (r ! 5) (r ! 6) (r ! 7)"
    by (simp add: place_def a1_def m_def)
  also have "\<dots> = take (k * 8) a1
      @ [r ! 0, r ! 1, r ! 2, r ! 3, r ! 4, r ! 5, r ! 6, r ! 7] @ drop (k * 8 + 8) a1"
    by (rule addRectangle_eq [OF len1])
  finally have pl: "place env a k r = take (k * 8) a @ r @ drop (k * 8 + 8) a1"
    by (simp only: tk record_of_nths [OF r])
  have lk: "length (take (k * 8) a) = k * 8" using le by simp
  have len: "length (place env a k r) = length a1"
    using len1 le by (simp add: pl r)
  have "take (8 * Suc k) (place env a k r) = take (8 * k) a @ r"
    using lk by (simp add: pl r mult.commute)
  with len len1 dv1 ge1 show ?thesis by (simp add: mult.commute)
qed

text \<open>
  The record is dropped when the buffer ends at its slot and already has rows * cols * 8
  floats: the helper leaves the buffer as it is and the eight stores fall past its end.
\<close>

lemma place_drops:
  assumes "length a = 8 * k" and "rows env * cols env * 8 \<le> length a"
  shows "place env a k r = a"
  using assms
  by (simp add: place_def expandFloat32Array_full addRectangle_beyond)

lemma length_place_full:
  assumes "rows env * cols env * 8 \<le> length a"
  shows "length (place env a k r) = length a"
  using assms by (simp add: place_def expandFloat32Array_full length_addRectangle)

lemma length_place_all_full:
  assumes "rows env * cols env * 8 \<le> length a"
  shows "length (place_all env a k rs) = length a"
  using assms
proof (induction rs arbitrary: a k)
  case Nil
  then show ?case by simp
next
  case (Cons r rs)
  from Cons.prems have "length (place env a k r) = length a" by (rule length_place_full)
  with Cons.IH [of "place env a k r" "Suc k"] Cons.prems show ?case by simp
qed

subsection \<open>A list of records\<close>

text \<open>
  From slot \<open>k\<close> on, with no more records than the grid has cells plus one slot: the buffer
  holds what the records replace in it, up to its own length, and its length falls short of
  the last slot only when that slot is slot rows * cols and the buffer has exactly
  rows * cols * 8 floats.
\<close>

lemma place_all_props:
  assumes dv: "8 dvd length a" and k: "0 < k" and le: "8 * k \<le> length a"
    and rs: "\<forall>r\<in>set rs. length r = 8"
    and bound: "k + length rs \<le> rows env * cols env + 1"
  shows "8 dvd length (place_all env a k rs)
      \<and> length a \<le> length (place_all env a k rs)
      \<and> take (8 * (k + length rs)) (place_all env a k rs) =
          take (length (place_all env a k rs)) (take (8 * k) a @ concat rs)
      \<and> (8 * (k + length rs) \<le> length (place_all env a k rs)
          \<or> (k + length rs = rows env * cols env + 1
              \<and> length (place_all env a k rs) = 8 * (rows env * cols env)))"
  using rs bound
proof (induction rs rule: rev_induct)
  case Nil
  from le have "take (length a) (take (8 * k) a) = take (8 * k) a" by (simp add: min_def)
  with dv le show ?case by simp
next
  case (snoc r rs)
  define a1 where "a1 = place_all env a k rs"
  define n1 where "n1 = k + length rs"
  define F where "F = take (8 * k) a @ concat rs"
  from snoc.prems have rs: "\<forall>r\<in>set rs. length r = 8" and r: "length r = 8"
    and n1: "n1 \<le> rows env * cols env"
    by (simp_all add: n1_def)
  from n1 have "k + length rs \<le> rows env * cols env + 1" by (simp add: n1_def)
  from snoc.IH [OF rs this] n1
  have dv1: "8 dvd length a1" and ge1: "length a \<le> length a1"
    and tk1: "take (8 * n1) a1 = take (length a1) F" and le1: "8 * n1 \<le> length a1"
    by (simp_all add: a1_def n1_def F_def)
  have lF: "length F = 8 * n1"
    using le length_concat_records [OF rs] by (simp add: F_def n1_def)
  with tk1 le1 have F: "take (8 * n1) a1 = F" by simp
  have pos: "0 < n1" using k by (simp add: n1_def)
  have step: "place_all env a k (rs @ [r]) = place env a1 n1 r"
    by (simp add: place_all_append a1_def n1_def)
  have full: "take (8 * k) a @ concat (rs @ [r]) = F @ r" by (simp add: F_def)
  have cnt: "k + length (rs @ [r]) = Suc n1" by (simp add: n1_def)
  show ?case
  proof (cases "8 * Suc n1 \<le> length a1 \<or> length a1 < rows env * cols env * 8")
    case True
    from place_lands [OF dv1 le1 pos r True]
    have dv2: "8 dvd length (place env a1 n1 r)"
      and ge2: "length a1 \<le> length (place env a1 n1 r)"
      and le2: "8 * Suc n1 \<le> length (place env a1 n1 r)"
      and tk2: "take (8 * Suc n1) (place env a1 n1 r) = take (8 * n1) a1 @ r"
      by simp_all
    have "length (F @ r) = 8 * Suc n1" using lF r by simp
    with le2 have "take (length (place env a1 n1 r)) (F @ r) = F @ r" by simp
    with tk2 F have "take (8 * Suc n1) (place env a1 n1 r) =
        take (length (place env a1 n1 r)) (F @ r)"
      by simp
    with dv2 ge1 ge2 le2 show ?thesis
      unfolding step full cnt by simp
  next
    case False
    then have short: "length a1 < 8 * Suc n1" and big: "rows env * cols env * 8 \<le> length a1"
      by simp_all
    from dv1 obtain j where "length a1 = 8 * j" by (auto simp: dvd_def)
    with short le1 have eq: "length a1 = 8 * n1" by arith
    with big n1 have top: "n1 = rows env * cols env" by simp
    from place_drops [OF eq big] have same: "place env a1 n1 r = a1" .
    from eq have "take (8 * Suc n1) a1 = take (8 * n1) a1" by simp
    also have "\<dots> = F" by (rule F)
    also have "\<dots> = take (length a1) (F @ r)" using lF eq by simp
    finally have tk2: "take (8 * Suc n1) a1 = take (length a1) (F @ r)" .
    from eq top have last: "Suc n1 = rows env * cols env + 1"
      "length a1 = 8 * (rows env * cols env)"
      by simp_all
    from dv1 ge1 tk2 last show ?thesis
      unfolding step full cnt same by blast
  qed
qed

subsection \<open>No more runs than cells\<close>

lemma length_scan_runs:
  "length (scan_runs x sx cur cs) \<le> length cs + (if cur \<noteq> DEFAULT_COLOR then 1 else 0)"
proof (induction cs arbitrary: x sx cur)
  case Nil
  then show ?case by simp
next
  case (Cons c cs)
  show ?case
  proof (cases "c = cur")
    case True
    with Cons.IH [of "Suc x" sx cur] show ?thesis by simp
  next
    case False
    with Cons.IH [of "Suc x" "int x" c] show ?thesis by (simp split: if_splits)
  qed
qed

lemma length_row_trace: "length (row_trace env model y) \<le> cols env"
  using length_scan_runs [of 0 "- 1" DEFAULT_COLOR "grid_row env model y"]
  by (simp add: row_trace_def grid_row_def)

lemma length_grid_rects: "length (grid_rects env model 0) \<le> rows env * cols env"
proof -
  have "length (grid_rects env model 0) = (\<Sum>y\<leftarrow>[0..<rows env]. length (row_trace env model y))"
    by (simp add: grid_rects_def length_concat comp_def)
  also have "\<dots> \<le> (\<Sum>y\<leftarrow>[0..<rows env]. cols env)"
    by (rule sum_list_mono) (rule length_row_trace)
  also have "\<dots> = rows env * cols env" by (simp add: sum_list_triv)
  finally show ?thesis .
qed

subsection \<open>The whole call\<close>

lemma updateBackgrounds_buffer:
  assumes grid: "grid_ok env model" and codes: "codes_ok env model"
    and ok: "buffer_ok (rect_floats st)"
  shows "\<exists>st'. updateBackgrounds env model st = Inr st' \<and> redrawn env model st st'"
proof -
  define a where "a = rect_floats st"
  define rs where "rs = grid_rects env model 0"
  define a' where "a' = place_all env a 1 rs"
  from updateBackgrounds_count [OF grid codes, of st]
  obtain st' where run: "updateBackgrounds env model st = Inr st'"
    and cnt: "rect_count st' = 1 + length rs" and buf: "rect_floats st' = a'"
    by (auto simp: rect_count_def rect_floats_def a_def rs_def a'_def)
  from ok have dv: "8 dvd length a" and a8: "8 \<le> length a"
    by (simp_all add: buffer_ok_def a_def dvd_imp_le)
  have len: "\<forall>r\<in>set rs. length r = 8"
    by (auto simp: rs_def grid_rects_runs length_run_floats)
  have bound: "1 + length rs \<le> rows env * cols env + 1"
    using length_grid_rects [of env model] by (simp add: rs_def)
  from place_all_props [OF dv _ _ len bound] a8
  have dv': "8 dvd length a'" and ge: "length a \<le> length a'"
    and tk: "take (8 * (1 + length rs)) a' = take (length a') (take 8 a @ concat rs)"
    and room: "8 * (1 + length rs) \<le> length a'
        \<or> (1 + length rs = rows env * cols env + 1 \<and> length a' = 8 * (rows env * cols env))"
    by (simp_all add: a'_def)
  have fixed: "length a' = length a" if "rows env * cols env * 8 \<le> length a"
    unfolding a'_def using that by (rule length_place_all_full)
  have a8': "8 \<le> length a'" using a8 ge by simp
  have "take 8 a' = take 8 (take (8 * (1 + length rs)) a')" by (simp add: min_def)
  also have "\<dots> = take 8 (take (length a') (take 8 a @ concat rs))" by (simp only: tk)
  also have "\<dots> = take 8 a" using a8 a8' by (simp add: min_def)
  finally have s0: "slot a' 0 = slot a 0" by (simp add: slot_def)
  have pos: "0 < length a'" using a8' by linarith
  have bok: "buffer_ok a'" unfolding buffer_ok_def using dv' pos by blast
  have "redrawn env model st st'"
    unfolding redrawn_def cnt buf a_def [symmetric] rs_def [symmetric]
    using bok ge tk room fixed s0 by blast
  with run show ?thesis by blast
qed

lemma redrawnD:
  assumes "redrawn env model st st'"
  shows "rect_count st' = 1 + length (grid_rects env model 0)"
    and "buffer_ok (rect_floats st')"
    and "length (rect_floats st) \<le> length (rect_floats st')"
    and "take (8 * rect_count st') (rect_floats st') =
          take (length (rect_floats st'))
            (take 8 (rect_floats st) @ concat (grid_rects env model 0))"
    and "8 * rect_count st' \<le> length (rect_floats st')
          \<or> (rect_count st' = rows env * cols env + 1
              \<and> length (rect_floats st') = 8 * (rows env * cols env))"
    and "rows env * cols env * 8 \<le> length (rect_floats st)
            \<Longrightarrow> length (rect_floats st') = length (rect_floats st)"
    and "slot (rect_floats st') 0 = slot (rect_floats st) 0"
proof -
  note r = assms [unfolded redrawn_def]
  note r2 = r [THEN conjunct2]
  note r3 = r2 [THEN conjunct2]
  note r4 = r3 [THEN conjunct2]
  note r5 = r4 [THEN conjunct2]
  note r6 = r5 [THEN conjunct2]
  show "rect_count st' = 1 + length (grid_rects env model 0)" by (rule r [THEN conjunct1])
  show "buffer_ok (rect_floats st')" by (rule r2 [THEN conjunct1])
  show "length (rect_floats st) \<le> length (rect_floats st')" by (rule r3 [THEN conjunct1])
  show "take (8 * rect_count st') (rect_floats st') =
          take (length (rect_floats st'))
            (take 8 (rect_floats st) @ concat (grid_rects env model 0))"
    by (rule r4 [THEN conjunct1])
  show "8 * rect_count st' \<le> length (rect_floats st')
          \<or> (rect_count st' = rows env * cols env + 1
              \<and> length (rect_floats st') = 8 * (rows env * cols env))"
    by (rule r5 [THEN conjunct1])
  show "length (rect_floats st') = length (rect_floats st)"
    if "rows env * cols env * 8 \<le> length (rect_floats st)"
    using r6 [THEN conjunct1] that by (rule mp)
  show "slot (rect_floats st') 0 = slot (rect_floats st) 0" by (rule r6 [THEN conjunct2])
qed

subsection \<open>Colour resolution\<close>

lemma for_loop_succeeds:
  assumes step: "\<And>i s. i < n \<Longrightarrow> I s \<Longrightarrow> \<exists>s'. body i s = Inr s' \<and> I s'"
    and "m = n - i" and "I s"
  shows "\<exists>s'. for_loop i n body s = Inr s' \<and> I s'"
  using assms(2,3)
proof (induction m arbitrary: i s)
  case 0
  then show ?case by (subst for_loop.simps) simp
next
  case (Suc m)
  then have i: "i < n" by simp
  from step [OF i Suc.prems(2)] obtain s1 where s1: "body i s = Inr s1" "I s1" by blast
  from Suc.prems have "m = n - Suc i" by simp
  from Suc.IH [OF this s1(2)] obtain s' where "for_loop (Suc i) n body s1 = Inr s'" "I s'"
    by blast
  with i s1 show ?case by (subst for_loop.simps) simp
qed

lemma emit_rectangle_returns:
  assumes "currentBg s = Some c" "resolvable env c"
  shows "\<exists>s'. emit_rectangle env ex y s = Inr s' \<and> currentBg s' = currentBg s"
  using emit_rectangle_ok [OF assms] by blast

lemma updateBackgrounds_returns:
  assumes grid: "grid_ok env model" and codes: "codes_ok env model"
  shows "\<exists>st'. updateBackgrounds env model st = Inr st'"
proof -
  define I where "I s \<longleftrightarrow> (\<exists>c. currentBg s = Some c \<and> (c = DEFAULT_COLOR \<or> resolvable env c))"
    for s :: scan_state
  have col: "\<exists>s'. col_step env model y x s = Inr s' \<and> I s'"
    if "y < rows env" "x < cols env" "I s" for y x s
  proof -
    from that(3) obtain c where c: "currentBg s = Some c" "c = DEFAULT_COLOR \<or> resolvable env c"
      by (auto simp: I_def)
    have rd: "typed_get (cells model) ((y * cols env + x) * 4 + 2) = Some (grid_row env model y ! x)"
      using grid that by (intro cell_read)
    have "grid_row env model y ! x \<in> set (grid_row env model y)"
      using that by (simp add: grid_row_def)
    with codes that have new: "grid_row env model y ! x = DEFAULT_COLOR
        \<or> resolvable env (grid_row env model y ! x)"
      by (simp add: codes_ok_def)
    show ?thesis
    proof (cases "grid_row env model y ! x = c")
      case True
      with rd c that(3) show ?thesis by (simp add: col_step_def Let_def)
    next
      case False
      show ?thesis
      proof (cases "c = DEFAULT_COLOR")
        case True
        with False rd c new show ?thesis
          by (simp add: col_step_def Let_def then_do_def I_def)
      next
        case nd: False
        with c have "resolvable env c" by simp
        from emit_rectangle_returns [OF c(1) this, of x y]
        obtain s1 where "emit_rectangle env x y s = Inr s1" by blast
        with False nd rd c new show ?thesis
          by (simp add: col_step_def Let_def then_do_def I_def)
      qed
    qed
  qed
  have row: "\<exists>s'. row_step env model y s = Inr s' \<and> True" if "y < rows env" for y s
  proof -
    have "I (s\<lparr>currentStartX := - 1, currentBg := Some DEFAULT_COLOR\<rparr>)" by (simp add: I_def)
    from for_loop_succeeds [where I = I and body = "col_step env model y", OF col [OF that] refl this]
    obtain s1 where s1: "for_loop 0 (cols env) (col_step env model y)
        (s\<lparr>currentStartX := - 1, currentBg := Some DEFAULT_COLOR\<rparr>) = Inr s1" "I s1"
      by blast
    from s1(2) obtain c where c: "currentBg s1 = Some c" "c = DEFAULT_COLOR \<or> resolvable env c"
      by (auto simp: I_def)
    have "\<exists>s'. finish_row env y s1 = Inr s'"
    proof (cases "c = DEFAULT_COLOR")
      case True
      with c show ?thesis by (simp add: finish_row_def)
    next
      case False
      with c have "resolvable env c" by simp
      from emit_rectangle_returns [OF c(1) this, of "cols env" y] False c
      show ?thesis by (auto simp: finish_row_def)
    qed
    with s1(1) show ?thesis by (auto simp: row_step_def then_do_def)
  qed
  from for_loop_succeeds [where I = "\<lambda>s. True" and body = "row_step env model", OF row refl TrueI]
  obtain s' where "for_loop 0 (rows env) (row_step env model)
      \<lparr>rectangleCount = 1, currentStartX = - 1, currentBg = Some DEFAULT_COLOR,
       scan_vertices = m_vertices st\<rparr> = Inr s'"
    by blast
  then show ?thesis by (simp add: updateBackgrounds_def then_do_def)
qed


section \<open>The trace of a row and its maximal runs\<close>

lemma scan_at_start: "scan_at row 0 sx DEFAULT_COLOR"
  by (simp add: scan_at_def)

lemma scan_atI:
  assumes "x \<le> length row" "x = 0 \<Longrightarrow> cur = DEFAULT_COLOR" "0 < x \<Longrightarrow> row ! (x - 1) = cur"
    "cur \<noteq> DEFAULT_COLOR \<Longrightarrow> 0 \<le> sx" "cur \<noteq> DEFAULT_COLOR \<Longrightarrow> nat sx < x"
    "\<And>k. cur \<noteq> DEFAULT_COLOR \<Longrightarrow> nat sx \<le> k \<Longrightarrow> k < x \<Longrightarrow> row ! k = cur"
    "cur \<noteq> DEFAULT_COLOR \<Longrightarrow> sx = 0 \<or> row ! (nat sx - 1) \<noteq> cur"
  shows "scan_at row x sx cur"
  unfolding scan_at_def using assms by (intro conjI impI ballI) simp_all

lemma scan_atD:
  assumes "scan_at row x sx cur"
  shows "x \<le> length row" "x = 0 \<Longrightarrow> cur = DEFAULT_COLOR" "0 < x \<Longrightarrow> row ! (x - 1) = cur"
    "cur \<noteq> DEFAULT_COLOR \<Longrightarrow> 0 \<le> sx" "cur \<noteq> DEFAULT_COLOR \<Longrightarrow> nat sx < x"
    "\<And>k. cur \<noteq> DEFAULT_COLOR \<Longrightarrow> nat sx \<le> k \<Longrightarrow> k < x \<Longrightarrow> row ! k = cur"
    "cur \<noteq> DEFAULT_COLOR \<Longrightarrow> sx = 0 \<or> row ! (nat sx - 1) \<noteq> cur"
  using assms unfolding scan_at_def by simp_all

lemma scan_at_same:
  assumes at: "scan_at row x sx cur" and x: "x < length row" and same: "row ! x = cur"
  shows "scan_at row (Suc x) sx cur"
proof (rule scan_atI)
  show "Suc x \<le> length row" using x by simp
  show "cur = DEFAULT_COLOR" if "Suc x = 0" using that by simp
  show "row ! (Suc x - 1) = cur" using same by simp
  show "0 \<le> sx" if "cur \<noteq> DEFAULT_COLOR" using scan_atD(4) [OF at that] .
  show "nat sx < Suc x" if "cur \<noteq> DEFAULT_COLOR" using scan_atD(5) [OF at that] by simp
  show "row ! k = cur" if "cur \<noteq> DEFAULT_COLOR" "nat sx \<le> k" "k < Suc x" for k
  proof (cases "k = x")
    case True
    with same show ?thesis by simp
  next
    case False
    with that(3) have "k < x" by simp
    with scan_atD(6) [OF at that(1,2)] show ?thesis .
  qed
  show "sx = 0 \<or> row ! (nat sx - 1) \<noteq> cur" if "cur \<noteq> DEFAULT_COLOR"
    using scan_atD(7) [OF at that] .
qed

lemma scan_at_change:
  assumes at: "scan_at row x sx cur" and x: "x < length row" and other: "row ! x \<noteq> cur"
  shows "scan_at row (Suc x) (int x) (row ! x)"
proof (rule scan_atI)
  show "Suc x \<le> length row" using x by simp
  show "row ! x = DEFAULT_COLOR" if "Suc x = 0" using that by simp
  show "row ! (Suc x - 1) = row ! x" by simp
  show "0 \<le> int x" by simp
  show "nat (int x) < Suc x" by simp
  show "row ! k = row ! x" if "nat (int x) \<le> k" "k < Suc x" for k
  proof -
    from that have "k = x" by simp
    then show ?thesis by simp
  qed
  show "int x = 0 \<or> row ! (nat (int x) - 1) \<noteq> row ! x"
  proof (cases "x = 0")
    case True
    then show ?thesis by simp
  next
    case False
    with scan_atD(3) [OF at] other show ?thesis by simp
  qed
qed

lemma is_runD:
  assumes "is_run row s e"
  shows "s < e" "e \<le> length row" "row ! s \<noteq> DEFAULT_COLOR"
    "\<And>k. s \<le> k \<Longrightarrow> k < e \<Longrightarrow> row ! k = row ! s"
    "s = 0 \<or> row ! (s - 1) \<noteq> row ! s" "e = length row \<or> row ! e \<noteq> row ! s"
proof -
  note run = assms [unfolded is_run_def]
  show "s < e" "e \<le> length row" "row ! s \<noteq> DEFAULT_COLOR"
    "s = 0 \<or> row ! (s - 1) \<noteq> row ! s" "e = length row \<or> row ! e \<noteq> row ! s"
    using run by blast+
  show "row ! k = row ! s" if "s \<le> k" "k < e" for k
  proof -
    from that have "k \<in> {s..<e}" by (simp only: atLeastLessThan_iff)
    with run show ?thesis by blast
  qed
qed

lemma is_runI:
  assumes "s < e" "e \<le> length row" "row ! s \<noteq> DEFAULT_COLOR"
    "\<And>k. s \<le> k \<Longrightarrow> k < e \<Longrightarrow> row ! k = row ! s"
    "s = 0 \<or> row ! (s - 1) \<noteq> row ! s" "e = length row \<or> row ! e \<noteq> row ! s"
  shows "is_run row s e"
proof -
  have "\<forall>k\<in>{s..<e}. row ! k = row ! s"
  proof
    fix k assume "k \<in> {s..<e}"
    then have "s \<le> k" "k < e" by (simp_all only: atLeastLessThan_iff)
    then show "row ! k = row ! s" by (rule assms(4))
  qed
  with assms(1,2,3,5,6) show ?thesis unfolding is_run_def by blast
qed

lemma run_colour_last:
  assumes "is_run row s e"
  shows "row ! (e - 1) = row ! s"
  using is_runD(1) [OF assms] by (intro is_runD(4) [OF assms]) simp_all

lemma runs_ending:
  assumes at: "scan_at row x sx cur" and edge: "x = length row \<or> row ! x \<noteq> cur"
  shows "is_run row s x \<longleftrightarrow> cur \<noteq> DEFAULT_COLOR \<and> int s = sx"
proof
  assume run: "is_run row s x"
  then have sx: "s < x" by (rule is_runD)
  with scan_atD(3) [OF at] have last: "row ! (x - 1) = cur" by simp
  with run_colour_last [OF run] have col: "row ! s = cur" by simp
  with is_runD(3) [OF run] have nd: "cur \<noteq> DEFAULT_COLOR" by simp
  note inv = scan_atD(4-7) [OF at nd]
  have "\<not> s < nat sx"
  proof
    assume lt: "s < nat sx"
    with inv(2) have "s \<le> nat sx - 1" "nat sx - 1 < x" by simp_all
    from is_runD(4) [OF run this] col have "row ! (nat sx - 1) = cur" by simp
    moreover from lt have "sx \<noteq> 0" by auto
    ultimately show False using inv(4) by simp
  qed
  moreover have "\<not> nat sx < s"
  proof
    assume lt: "nat sx < s"
    with sx have "nat sx \<le> s - 1" "s - 1 < x" by simp_all
    from inv(3) [OF this] have "row ! (s - 1) = cur" .
    moreover from lt have "s \<noteq> 0" by simp
    ultimately show False using is_runD(5) [OF run] col by simp
  qed
  ultimately have "s = nat sx" by simp
  with inv(1) nd show "cur \<noteq> DEFAULT_COLOR \<and> int s = sx" by simp
next
  assume "cur \<noteq> DEFAULT_COLOR \<and> int s = sx"
  then have nd: "cur \<noteq> DEFAULT_COLOR" and s: "nat sx = s" "sx = int s" by auto
  note inv = scan_atD(4-7) [OF at nd, unfolded s(1)]
  have col: "row ! s = cur" using inv(2) by (intro inv(3)) simp_all
  show "is_run row s x"
  proof (rule is_runI)
    show "s < x" by (rule inv(2))
    show "x \<le> length row" by (rule scan_atD(1) [OF at])
    show "row ! s \<noteq> DEFAULT_COLOR" using col nd by simp
    show "row ! k = row ! s" if "s \<le> k" "k < x" for k using inv(3) [OF that] col by simp
    show "s = 0 \<or> row ! (s - 1) \<noteq> row ! s" using inv(4) col s(2) by simp
    show "x = length row \<or> row ! x \<noteq> row ! s" using edge col by simp
  qed
qed

lemma no_run_ending:
  assumes at: "scan_at row x sx cur" and x: "x < length row" and same: "row ! x = cur"
  shows "\<not> is_run row s x"
proof
  assume run: "is_run row s x"
  then have "s < x" by (rule is_runD)
  with scan_atD(3) [OF at] have "row ! (x - 1) = cur" by simp
  with run_colour_last [OF run] have "row ! s = cur" by simp
  with is_runD(6) [OF run] x same show False by simp
qed

lemma scan_runs_iff:
  assumes "scan_at row x sx cur" and "cs = drop x row"
  shows "r \<in> set (scan_runs x sx cur cs) \<longleftrightarrow>
           (\<exists>s e. r = (row ! s, int s, e) \<and> is_run row s e \<and> x \<le> e)"
  using assms
proof (induction cs arbitrary: x sx cur)
  case Nil
  from scan_atD(1) [OF Nil.prems(1)] Nil.prems(2) have x: "x = length row" by simp
  have ends: "is_run row s e \<and> x \<le> e \<longleftrightarrow> e = x \<and> cur \<noteq> DEFAULT_COLOR \<and> int s = sx" for s e
  proof (cases "e = x")
    case True
    with runs_ending [OF Nil.prems(1), of s] x show ?thesis by simp
  next
    case False
    with x is_runD(2) [of row s e] show ?thesis by auto
  qed
  show ?case
  proof (cases "cur = DEFAULT_COLOR")
    case True
    then show ?thesis by (simp add: ends)
  next
    case False
    note inv = scan_atD(4-7) [OF Nil.prems(1) False]
    have col: "row ! nat sx = cur" using inv(2) by (intro inv(3)) simp_all
    have "r = (cur, sx, x) \<longleftrightarrow> (\<exists>s e. r = (row ! s, int s, e) \<and> e = x \<and> int s = sx)"
    proof
      assume "r = (cur, sx, x)"
      with col inv(1) have "r = (row ! nat sx, int (nat sx), x) \<and> x = x \<and> int (nat sx) = sx"
        by simp
      then show "\<exists>s e. r = (row ! s, int s, e) \<and> e = x \<and> int s = sx" by blast
    next
      assume "\<exists>s e. r = (row ! s, int s, e) \<and> e = x \<and> int s = sx"
      then obtain s where "r = (row ! s, int s, x)" "int s = sx" by blast
      moreover from this have "nat sx = s" by auto
      ultimately show "r = (cur, sx, x)" using col by simp
    qed
    with False show ?thesis by (auto simp: ends)
  qed
next
  case (Cons c cs)
  then have x: "x < length row" by (cases "x < length row") simp_all
  with Cons.prems have c: "c = row ! x" and cs: "cs = drop (Suc x) row"
    by (simp_all add: Cons_nth_drop_Suc [symmetric])
  show ?case
  proof (cases "c = cur")
    case True
    from scan_at_same [OF Cons.prems(1) x] True c have at': "scan_at row (Suc x) sx cur" by simp
    have "is_run row s e \<and> x \<le> e \<longleftrightarrow> is_run row s e \<and> Suc x \<le> e" for s e
      using no_run_ending [OF Cons.prems(1) x, of s] True c
      by (cases "e = x") auto
    with Cons.IH [OF at' cs] True show ?thesis by simp
  next
    case False
    from scan_at_change [OF Cons.prems(1) x] False c
    have at': "scan_at row (Suc x) (int x) c" by simp
    have edge: "x = length row \<or> row ! x \<noteq> cur" using False c by simp
    have split: "is_run row s e \<and> x \<le> e \<longleftrightarrow>
        (e = x \<and> cur \<noteq> DEFAULT_COLOR \<and> int s = sx) \<or> (is_run row s e \<and> Suc x \<le> e)" for s e
      using runs_ending [OF Cons.prems(1) edge, of s] by (cases "e = x") auto
    show ?thesis
    proof (cases "cur = DEFAULT_COLOR")
      case True
      with Cons.IH [OF at' cs] False show ?thesis by (simp add: split)
    next
      case nd: False
      note inv = scan_atD(4-7) [OF Cons.prems(1) nd]
      have col: "row ! nat sx = cur" using inv(2) by (intro inv(3)) simp_all
      have "r = (cur, sx, x) \<longleftrightarrow> (\<exists>s e. r = (row ! s, int s, e) \<and> e = x \<and> int s = sx)"
      proof
        assume "r = (cur, sx, x)"
        with col inv(1) have "r = (row ! nat sx, int (nat sx), x) \<and> x = x \<and> int (nat sx) = sx"
          by simp
        then show "\<exists>s e. r = (row ! s, int s, e) \<and> e = x \<and> int s = sx" by blast
      next
        assume "\<exists>s e. r = (row ! s, int s, e) \<and> e = x \<and> int s = sx"
        then obtain s where "r = (row ! s, int s, x)" "int s = sx" by blast
        moreover from this have "nat sx = s" by auto
        ultimately show "r = (cur, sx, x)" using col by simp
      qed
      with Cons.IH [OF at' cs] False nd show ?thesis by (auto simp: split)
    qed
  qed
qed

lemma scan_runs_ends: "(c, s, e) \<in> set (scan_runs x sx cur cs) \<Longrightarrow> x \<le> e"
proof (induction cs arbitrary: x sx cur)
  case Nil
  then show ?case by (simp split: if_splits)
next
  case (Cons a cs)
  then show ?case by (fastforce split: if_splits)
qed

lemma distinct_scan_runs: "distinct (scan_runs x sx cur cs)"
proof (induction cs arbitrary: x sx cur)
  case Nil
  then show ?case by simp
next
  case (Cons a cs)
  have "(cur, sx, x) \<notin> set (scan_runs (Suc x) sx' c' cs)" for sx' c'
    using scan_runs_ends [of cur sx x "Suc x" sx' c' cs] by auto
  with Cons.IH show ?case by simp
qed

section \<open>Counting the runs\<close>

lemma set_maximal_runs: "set (maximal_runs row) = {(s, e). is_run row s e}"
proof -
  have "(s, e) \<in> set (maximal_runs row) \<longleftrightarrow> is_run row s e" for s e
  proof
    assume "(s, e) \<in> set (maximal_runs row)"
    then show "is_run row s e" by (simp add: maximal_runs_def)
  next
    assume run: "is_run row s e"
    from is_runD(1,2) [OF run] have "s < length row" "e < Suc (length row)" by simp_all
    with run show "(s, e) \<in> set (maximal_runs row)"
      by (simp add: maximal_runs_def del: upt_Suc)
  qed
  then show ?thesis by auto
qed

lemma distinct_maximal_runs: "distinct (maximal_runs row)"
  by (simp add: maximal_runs_def distinct_product)

lemma set_row_scan:
  "set (scan_runs 0 (- 1) DEFAULT_COLOR row) = (\<lambda>(s, e). (row ! s, int s, e)) ` {(s, e). is_run row s e}"
proof -
  have "r \<in> set (scan_runs 0 (- 1) DEFAULT_COLOR row) \<longleftrightarrow>
      (\<exists>s e. r = (row ! s, int s, e) \<and> is_run row s e)" for r
    using scan_runs_iff [where x = 0 and sx = "- 1" and cur = DEFAULT_COLOR and cs = row
        and row = row and r = r, OF scan_at_start]
    by simp
  then show ?thesis by (auto simp: image_iff)
qed

lemma length_row_scan:
  "length (scan_runs 0 (- 1) DEFAULT_COLOR row) = length (maximal_runs row)"
proof -
  have inj: "inj_on (\<lambda>(s, e). (row ! s, int s, e)) A" for A :: "(nat \<times> nat) set"
    by (auto simp: inj_on_def)
  have "length (scan_runs 0 (- 1) DEFAULT_COLOR row)
      = card (set (scan_runs 0 (- 1) DEFAULT_COLOR row))"
    by (simp add: distinct_card distinct_scan_runs)
  also have "\<dots> = card {(s, e). is_run row s e}"
    by (simp add: set_row_scan card_image inj)
  also have "\<dots> = length (maximal_runs row)"
    by (simp add: set_maximal_runs [symmetric] distinct_card distinct_maximal_runs)
  finally show ?thesis .
qed

lemma length_grid_runs: "length (grid_runs env model 0) = run_count env model"
  by (simp add: grid_runs_def run_count_def length_concat comp_def row_trace_def length_row_scan)

lemma run_count_ok:
  assumes "grid_ok env model" and "codes_ok env model"
  shows "\<exists>st'. updateBackgrounds env model st = Inr st'
           \<and> rect_count st' = 1 + run_count env model"
  using updateBackgrounds_count [OF assms, of st]
  by (auto simp: rect_count_def grid_rects_runs length_grid_runs)


section \<open>The selection geometry\<close>

lemmas selection_defs =
  updateSelection_def typed_set_def fill_def range_vertices_def column_vertices_def
  range_outline_def sel_startRow_def sel_endRow_def sel_startCol_def sel_endCol_def
  sel_startRowEndCol_def sel_middleRowsCount_def sel_outline_def sel_floats_def

lemmas example_defs =
  example_env_def example_colors_def no_selection_def four_rows_def below_viewport_def
  new_renderer_def updateCachedColors_def SELECTION_VERTEX_COUNT_def
  SELECTION_OUTLINE_INDEX_COUNT_def INITIAL_BUFFER_RECTANGLE_CAPACITY_def
  INDICES_PER_RECTANGLE_def

lemma segments_members:
  "(a, b) \<in> set (segments idx) \<Longrightarrow> a \<in> set idx \<and> b \<in> set idx"
  by (induction idx rule: segments.induct) auto

lemma vertex_of_zeros:
  assumes "i < 10"
  shows "vertex (replicate 40 0) i = replicate 4 (0 :: rat)"
proof -
  from assms have "min 4 (40 - 4 * i) = 4" by simp
  then show ?thesis by (simp add: vertex_def)
qed

text \<open>
  Claim C3, as the code has it. Without a selection, \<open>updateSelection\<close> sets all forty floats
  of the vertex buffer to zero and returns; it does not write the outline index array, which
  keeps the indices of the previous call. Every segment the array names (its indices being
  those of the vertices 0 to 9) then joins two vertices whose four floats are zero.
\<close>

theorem clear_selection_zero_fills_vertices:
  assumes "\<not> hasSelection model" and "length (sel_floats st) = 40"
  shows "\<exists>st'. updateSelection env model columnSelectMode st = Inr st'
           \<and> sel_floats st' = replicate 40 0
           \<and> sel_outline st' = sel_outline st
           \<and> (outline_in_range (sel_outline st) \<longrightarrow>
                (\<forall>(a, b)\<in>set (segments (sel_outline st')).
                   vertex (sel_floats st') (unat a) = replicate 4 0
                   \<and> vertex (sel_floats st') (unat b) = replicate 4 0))"
proof -
  define st' where "st' = st\<lparr>m_selectionVertices :=
      (m_selectionVertices st)\<lparr>vertices := fill (vertices (m_selectionVertices st)) 0 0\<rparr>\<rparr>"
  have run: "updateSelection env model columnSelectMode st = Inr st'"
    using assms(1) by (simp add: updateSelection_def Let_def st'_def)
  have zero: "sel_floats st' = replicate 40 0"
    using assms(2) by (simp add: st'_def sel_floats_def fill_def)
  have same: "sel_outline st' = sel_outline st"
    by (simp add: st'_def sel_outline_def)
  have "vertex (sel_floats st') (unat a) = replicate 4 0
      \<and> vertex (sel_floats st') (unat b) = replicate 4 0"
    if "outline_in_range (sel_outline st)" "(a, b) \<in> set (segments (sel_outline st'))" for a b
  proof -
    from segments_members [OF that(2)] same have "a \<in> set (sel_outline st)"
      "b \<in> set (sel_outline st)"
      by simp_all
    with that(1) have "unat a < 10" "unat b < 10"
      by (simp_all add: outline_in_range_def SELECTION_VERTEX_COUNT_def)
    then show ?thesis unfolding zero by (simp add: vertex_of_zeros)
  qed
  with run zero same show ?thesis by blast
qed

theorem clear_selection_zero_fills_vertices_witness:
  "\<not> hasSelection no_selection \<and> length (sel_floats after_four_rows) = 40
   \<and> sel_floats after_four_rows ! 17 = 60
   \<and> sel_outline after_four_rows = [0, 1, 1, 6, 6, 7, 7, 9, 9, 8, 8, 4, 4, 2, 2, 0]
   \<and> outline_in_range (sel_outline after_four_rows)
   \<and> (\<exists>st'. updateSelection example_env no_selection False after_four_rows = Inr st'
           \<and> sel_floats st' = replicate 40 0
           \<and> sel_outline st' = [0, 1, 1, 6, 6, 7, 7, 9, 9, 8, 8, 4, 4, 2, 2, 0]
           \<and> (\<forall>(a, b)\<in>set (segments (sel_outline st')).
                   vertex (sel_floats st') (unat a) = replicate 4 0
                   \<and> vertex (sel_floats st') (unat b) = replicate 4 0))"
proof -
  have h1: "\<not> hasSelection no_selection" by (simp add: no_selection_def)
  have h2: "length (sel_floats after_four_rows) = 40"
    by (simp add: after_four_rows_def selection_defs example_defs Let_def)
  have f: "sel_floats after_four_rows ! 17 = 60"
    by (simp add: after_four_rows_def selection_defs example_defs Let_def)
  have o: "sel_outline after_four_rows = [0, 1, 1, 6, 6, 7, 7, 9, 9, 8, 8, 4, 4, 2, 2, 0]"
    by (simp add: after_four_rows_def selection_defs example_defs Let_def)
  have h3: "outline_in_range (sel_outline after_four_rows)"
    unfolding o by (simp add: outline_in_range_def SELECTION_VERTEX_COUNT_def)
  from clear_selection_zero_fills_vertices [OF h1 h2, of example_env False]
  obtain st' where "updateSelection example_env no_selection False after_four_rows = Inr st'"
    "sel_floats st' = replicate 40 0" "sel_outline st' = sel_outline after_four_rows"
    "outline_in_range (sel_outline after_four_rows) \<longrightarrow>
       (\<forall>(a, b)\<in>set (segments (sel_outline st')).
          vertex (sel_floats st') (unat a) = replicate 4 0
          \<and> vertex (sel_floats st') (unat b) = replicate 4 0)"
    by blast
  with h1 h2 f o h3 show ?thesis by (intro conjI exI [of _ st']) simp_all
qed

text \<open>
  Claim C3, as the spec states it, fails: after a selection of four rows has been drawn,
  clearing the selection leaves the eight segments of the staircase outline in the outline
  index array.
\<close>

theorem clear_selection_keeps_outline_indices:
  "map_sum id (active_segments \<circ> sel_outline)
     (then_do (updateSelection example_env four_rows False (new_renderer example_env))
        (updateSelection example_env no_selection False))
   = Inr [(0, 1), (1, 6), (6, 7), (7, 9), (9, 8), (8, 4), (4, 2), (2, 0)]"
  by (simp add: then_do_def selection_defs example_defs active_segments_def Let_def)

text \<open>
  Claim C4 at a selection that starts on the last visible row and continues below the
  viewport: the capped start and end rows are equal, the clipped end column is the number of
  columns (80), and the code takes the end column of the model (2) for the right edge of the
  top row, so that vertex 1 lies at x = 20 and not at x = 800.
\<close>

theorem startRowEndCol_skips_the_clipping:
  "sel_startRow below_viewport = sel_endRow below_viewport
   \<and> sel_endCol example_env below_viewport = 80
   \<and> sel_startRowEndCol example_env below_viewport = 2
   \<and> map_sum id (\<lambda>st. sel_floats st ! 4)
        (updateSelection example_env below_viewport False (new_renderer example_env)) = Inr 20"
  by (simp add: selection_defs example_defs Let_def)

text \<open>
  Claim C5. In range-select mode with a selection, the outline index array is one of three
  fixed sequences of sixteen indices, chosen by the capped rows and the clipped columns: the
  four-corner loop padded with zeros when the end row is the start row; two four-corner circuits
  when the end row is the next row and the start column lies right of the end column; the
  staircase perimeter otherwise.
\<close>

theorem range_outline_decision_table:
  assumes "hasSelection model" and "\<not> columnSelectMode"
    and "length (sel_floats st) = 40" and "length (sel_outline st) = 16"
  shows "\<exists>st'. updateSelection env model columnSelectMode st = Inr st'
           \<and> sel_outline st' =
               (if sel_endRow model = sel_startRow model
                  then [0, 1, 1, 3, 3, 2, 2, 0, 0, 0, 0, 0, 0, 0, 0, 0]
                else if sel_endRow model - sel_startRow model = 1
                        \<and> sel_startCol model > sel_endCol env model
                  then [0, 1, 1, 3, 3, 2, 2, 0, 5, 7, 7, 9, 9, 8, 8, 5]
                else [0, 1, 1, 6, 6, 7, 7, 9, 9, 8, 8, 4, 4, 2, 2, 0])"
  using assms
  by (simp add: updateSelection_def typed_set_def range_vertices_def range_outline_def
      sel_outline_def sel_floats_def Let_def)

theorem range_outline_decision_table_witness:
  "hasSelection four_rows \<and> \<not> False
   \<and> length (sel_floats (new_renderer example_env)) = 40
   \<and> length (sel_outline (new_renderer example_env)) = 16
   \<and> (\<exists>st'. updateSelection example_env four_rows False (new_renderer example_env) = Inr st'
           \<and> sel_outline st' = [0, 1, 1, 6, 6, 7, 7, 9, 9, 8, 8, 4, 4, 2, 2, 0])"
proof -
  have h1: "hasSelection four_rows" by (simp add: four_rows_def)
  have h3: "length (sel_floats (new_renderer example_env)) = 40"
    by (simp add: sel_floats_def example_defs)
  have h4: "length (sel_outline (new_renderer example_env)) = 16"
    by (simp add: sel_outline_def example_defs)
  have rows: "sel_endRow four_rows \<noteq> sel_startRow four_rows"
    "sel_endRow four_rows - sel_startRow four_rows \<noteq> 1"
    by (simp_all add: sel_endRow_def sel_startRow_def four_rows_def)
  from range_outline_decision_table [OF h1 _ h3 h4, of False example_env] rows h1 h3 h4
  show ?thesis by simp
qed

text \<open>
  Claim C10. In column-select mode with a selection, the vertex buffer holds the four corners
  of the rectangle in vertices 0 to 3, with x-insets +1 and -1 and y-inset +1, and zeros in
  the 24 floats of vertices 4 to 9.
\<close>

theorem column_select_clears_vertices_4_to_9:
  assumes "hasSelection model" and "columnSelectMode"
    and "length (sel_floats st) = 40" and "length (sel_outline st) = 16"
  shows "\<exists>st'. updateSelection env model columnSelectMode st = Inr st'
           \<and> sel_floats st' =
               [scaledCellWidth env * of_int (sel_startCol model),
                scaledCellHeight env * of_int (sel_startRow model), 1, 1,
                scaledCellWidth env * of_int (sel_endCol env model),
                scaledCellHeight env * of_int (sel_startRow model), - 1, 1,
                scaledCellWidth env * of_int (sel_startCol model),
                scaledCellHeight env * of_int (sel_endRow model + 1), 1, 1,
                scaledCellWidth env * of_int (sel_endCol env model),
                scaledCellHeight env * of_int (sel_endRow model + 1), - 1, 1]
               @ replicate 24 0"
  using assms
  by (simp add: updateSelection_def typed_set_def column_vertices_def fill_def
      sel_outline_def sel_floats_def Let_def)

theorem column_select_clears_vertices_4_to_9_witness:
  "hasSelection four_rows \<and> True
   \<and> length (sel_floats after_four_rows) = 40
   \<and> length (sel_outline after_four_rows) = 16
   \<and> sel_floats after_four_rows ! 17 = 60
   \<and> (\<exists>st'. updateSelection example_env four_rows True after_four_rows = Inr st'
           \<and> sel_floats st' =
               [30, 40, 1, 1, 70, 40, - 1, 1, 30, 120, 1, 1, 70, 120, - 1, 1] @ replicate 24 0)"
proof -
  have h1: "hasSelection four_rows" by (simp add: four_rows_def)
  have h3: "length (sel_floats after_four_rows) = 40"
    by (simp add: after_four_rows_def selection_defs example_defs Let_def)
  have h4: "length (sel_outline after_four_rows) = 16"
    by (simp add: after_four_rows_def selection_defs example_defs Let_def)
  have h5: "sel_floats after_four_rows ! 17 = 60"
    by (simp add: after_four_rows_def selection_defs example_defs Let_def)
  have vals: "sel_startCol four_rows = 3" "sel_endCol example_env four_rows = 7"
    "sel_startRow four_rows = 2" "sel_endRow four_rows = 5"
    "scaledCellWidth example_env = 10" "scaledCellHeight example_env = 20"
    by (simp_all add: selection_defs example_defs)
  from column_select_clears_vertices_4_to_9 [OF h1 _ h3 h4, of True example_env] h1 h3 h4 h5
  show ?thesis by (simp add: vals)
qed

section \<open>The background rectangles\<close>

lemma example_g_hyps:
  "grid_ok env_g grid_g" "codes_ok env_g grid_g" "buffer_ok (rect_floats (new_renderer env_g))"
  by code_simp+

text \<open>
  Claim C2 at a grid of four rows of five cells in which every cell starts a run, drawn by
  a new renderer. The 20 runs and slot 0 need 21 slots, that is 168 floats; the buffer has
  160, and \<open>_updateRectangle\<close> asks for rows * cols * 8 = 160. The call returns with a count
  of 21 and a buffer of 160 floats: slot 19 holds the rectangle of the cell before the last,
  and slot 20 (offsets 160 to 167) lies past the end of the buffer, so the eight stores of
  the last rectangle were dropped.
\<close>

theorem last_rectangle_is_stored_out_of_bounds:
  "rows env_w * cols env_w * 8 = 160
   \<and> length (rect_floats (new_renderer env_w)) = 160
   \<and> map_sum id
        (\<lambda>st'. (rect_count st', length (rect_floats st'),
                slot (rect_floats st') 19, slot (rect_floats st') 20))
        (updateBackgrounds env_w grid_w (new_renderer env_w))
      = Inr (21, 160, [30, 60, 10, 20, 0, 0, 0, 1], [])"
  by code_simp

text \<open>
  Claim C7. Two calls of \<open>updateBackgrounds\<close> in a row on the same grid, palette and cell
  dimensions give the same count and the same first count * 8 floats, from any buffer the
  class can hold, whether or not the first call replaced it by a longer one.
\<close>

theorem updateBackgrounds_twice_same_buffer:
  assumes "grid_ok env model" and "codes_ok env model" and "buffer_ok (rect_floats st)"
  shows "\<exists>st1 st2. updateBackgrounds env model st = Inr st1
           \<and> updateBackgrounds env model st1 = Inr st2
           \<and> rect_count st2 = rect_count st1
           \<and> take (8 * rect_count st1) (rect_floats st2)
               = take (8 * rect_count st1) (rect_floats st1)"
proof -
  define rs where "rs = grid_rects env model 0"
  define n where "n = 1 + length rs"
  from updateBackgrounds_buffer [OF assms]
  obtain st1 where run1: "updateBackgrounds env model st = Inr st1"
    and d1: "redrawn env model st st1"
    by blast
  note p1 = redrawnD [OF d1, folded rs_def, folded n_def]
  have cnt1: "rect_count st1 = n" by (rule p1(1))
  note ok1 = p1(2)
  have tk1: "take (8 * n) (rect_floats st1) =
      take (length (rect_floats st1)) (take 8 (rect_floats st) @ concat rs)"
    using p1(4) unfolding cnt1 .
  have room1: "8 * n \<le> length (rect_floats st1)
      \<or> (n = rows env * cols env + 1 \<and> length (rect_floats st1) = 8 * (rows env * cols env))"
    using p1(5) unfolding cnt1 .
  note s1 = p1(7)
  from updateBackgrounds_buffer [OF assms(1,2) ok1]
  obtain st2 where run2: "updateBackgrounds env model st1 = Inr st2"
    and d2: "redrawn env model st1 st2"
    by blast
  note p2 = redrawnD [OF d2, folded rs_def, folded n_def]
  have cnt2: "rect_count st2 = n" by (rule p2(1))
  note ge2 = p2(3)
  have tk2: "take (8 * n) (rect_floats st2) =
      take (length (rect_floats st2)) (take 8 (rect_floats st1) @ concat rs)"
    using p2(4) unfolding cnt2 .
  have fixed2: "length (rect_floats st2) = length (rect_floats st1)"
    if "rows env * cols env * 8 \<le> length (rect_floats st1)"
    using that by (rule p2(6))
  define F where "F = take 8 (rect_floats st) @ concat rs"
  have F1: "take 8 (rect_floats st1) @ concat rs = F"
    using s1 by (simp add: slot_def F_def)
  have len: "\<forall>r\<in>set rs. length r = 8"
    by (auto simp: rs_def grid_rects_runs length_run_floats)
  have lF: "length F \<le> 8 * n"
    using length_concat_records [OF len] by (simp add: F_def n_def)
  have "take (length (rect_floats st2)) F = take (length (rect_floats st1)) F"
  proof (cases "8 * n \<le> length (rect_floats st1)")
    case True
    with ge2 lF show ?thesis by simp
  next
    case False
    with room1 have "rows env * cols env * 8 \<le> length (rect_floats st1)" by simp
    from fixed2 [OF this] show ?thesis by simp
  qed
  then have "take (8 * n) (rect_floats st2) = take (8 * n) (rect_floats st1)"
    unfolding tk1 tk2 F1 F_def [symmetric] .
  then have "take (8 * rect_count st1) (rect_floats st2)
      = take (8 * rect_count st1) (rect_floats st1)"
    unfolding cnt1 .
  moreover have "rect_count st2 = rect_count st1" unfolding cnt1 cnt2 ..
  ultimately show ?thesis using run1 run2 by blast
qed

theorem updateBackgrounds_twice_same_buffer_witness:
  "grid_ok env_g grid_g \<and> codes_ok env_g grid_g \<and> buffer_ok (rect_floats (new_renderer env_g))
   \<and> (\<exists>st1 st2. updateBackgrounds env_g grid_g (new_renderer env_g) = Inr st1
           \<and> updateBackgrounds env_g grid_g st1 = Inr st2
           \<and> rect_count st2 = rect_count st1
           \<and> take (8 * rect_count st1) (rect_floats st2)
               = take (8 * rect_count st1) (rect_floats st1))"
  using updateBackgrounds_twice_same_buffer [OF example_g_hyps] example_g_hyps by blast

text \<open>
  Claim C8. On a grid whose cells are the default, the inverted default or a palette index
  from 0 to 255, with a palette of at least 256 entries, \<open>updateBackgrounds\<close> returns: no
  call of \<open>_updateRectangle\<close> is left without a colour. The inverted default resolves to the
  foreground colour, an index below 256 to its palette entry, and the default code has no
  colour, so it never reaches the resolution.
\<close>

theorem color_resolution_never_fails:
  assumes "grid_ok env model" and "palette_complete env" and "codes_in_palette env model"
  shows "(\<exists>st'. updateBackgrounds env model st = Inr st')
         \<and> resolveColor env (Some INVERTED_DEFAULT_COLOR) = Some (foreground (colors env))
         \<and> (\<forall>c<256. resolveColor env (Some c) = Some (ansi (colors env) ! c))
         \<and> resolveColor env (Some DEFAULT_COLOR) = None"
proof -
  have "c = DEFAULT_COLOR \<or> resolvable env c"
    if "c = DEFAULT_COLOR \<or> c = INVERTED_DEFAULT_COLOR \<or> c < 256" for c
    using that assms(2) by (auto simp: resolvable_def palette_complete_def)
  with assms(3) have "codes_ok env model"
    unfolding codes_ok_def codes_in_palette_def by blast
  from updateBackgrounds_returns [OF assms(1) this]
  have "\<exists>st'. updateBackgrounds env model st = Inr st'" .
  moreover have "resolveColor env (Some INVERTED_DEFAULT_COLOR) = Some (foreground (colors env))"
    by (simp add: resolveColor_def)
  moreover have "resolveColor env (Some c) = Some (ansi (colors env) ! c)" if "c < 256" for c
    using that assms(2)
    by (simp add: resolveColor_def is256Color_def typed_get_def palette_complete_def
        INVERTED_DEFAULT_COLOR_def)
  moreover have "resolveColor env (Some DEFAULT_COLOR) = None"
    by (simp add: resolveColor_def is256Color_def DEFAULT_COLOR_def INVERTED_DEFAULT_COLOR_def)
  ultimately show ?thesis by blast
qed

theorem color_resolution_never_fails_witness:
  "grid_ok env_g grid_g \<and> palette_complete env_g \<and> codes_in_palette env_g grid_g
   \<and> (\<exists>st'. updateBackgrounds env_g grid_g (new_renderer env_g) = Inr st')
   \<and> resolveColor env_g (Some INVERTED_DEFAULT_COLOR) = Some (foreground (colors env_g))
   \<and> resolveColor env_g (Some 1) = Some (ansi (colors env_g) ! 1)
   \<and> resolveColor env_g (Some DEFAULT_COLOR) = None"
proof -
  have h2: "palette_complete env_g" by code_simp
  have h3: "codes_in_palette env_g grid_g" by code_simp
  have "(1::nat) < 256" by simp
  with color_resolution_never_fails [OF example_g_hyps(1) h2 h3, of "new_renderer env_g"]
    example_g_hyps(1) h2 h3
  show ?thesis by blast
qed

text \<open>
  Claim C9. Slot 0 of the rectangle buffer is the viewport rectangle: \<open>onThemeChanged\<close>, and
  \<open>onResize\<close> when the cached background floats are those of the background colour, store
  there the rectangle at the origin of cols * cellWidth by rows * cellHeight pixels in
  the background colour, and \<open>updateBackgrounds\<close> returns with the eight floats of slot 0 as
  they were.
\<close>

theorem viewport_rectangle_in_slot_0:
  assumes "buffer_ok (rect_floats st)"
  shows "(m_bgFloat st = colorToFloat32Array (background (colors env))
            \<longrightarrow> slot (rect_floats (onResize env st)) 0 = viewport_rect env)
         \<and> slot (rect_floats (onThemeChanged env st)) 0 = viewport_rect env
         \<and> (grid_ok env model \<and> codes_ok env model
            \<longrightarrow> (\<exists>st'. updateBackgrounds env model st = Inr st'
                   \<and> slot (rect_floats st') 0 = slot (rect_floats st) 0))"
proof -
  from assms have len: "0 + 8 \<le> length (attributes (m_vertices st))"
    by (simp add: rect_floats_def buffer_ok_def dvd_imp_le)
  have wr: "slot (addRectangleFloat (attributes (m_vertices st)) 0 0 0 w h
        (colorToFloat32Array c)) 0 = [0, 0, w, h] @ colorToFloat32Array c" for w h c
  proof -
    have "addRectangleFloat (attributes (m_vertices st)) 0 0 0 w h (colorToFloat32Array c)
        = addRectangle (attributes (m_vertices st)) 0 0 0 w h
            (channel c 24) (channel c 16) (channel c 8) (channel c 0)"
      by (simp add: addRectangleFloat_def addRectangle_def colorToFloat32Array_def)
    then show ?thesis
      by (simp add: addRectangle_eq [OF len] slot_def colorToFloat32Array_def)
  qed
  have "slot (rect_floats (onResize env st)) 0 = viewport_rect env"
    if "m_bgFloat st = colorToFloat32Array (background (colors env))"
    using that wr
    by (simp add: onResize_def updateViewportRectangle_def rect_floats_def viewport_rect_def)
  moreover have "slot (rect_floats (onThemeChanged env st)) 0 = viewport_rect env"
    using wr
    by (simp add: onThemeChanged_def updateViewportRectangle_def updateCachedColors_def
        rect_floats_def viewport_rect_def)
  moreover have "\<exists>st'. updateBackgrounds env model st = Inr st'
        \<and> slot (rect_floats st') 0 = slot (rect_floats st) 0"
    if "grid_ok env model" "codes_ok env model"
    using updateBackgrounds_buffer [OF that assms] redrawnD(7) by blast
  ultimately show ?thesis by blast
qed

theorem viewport_rectangle_in_slot_0_witness:
  "buffer_ok (rect_floats (new_renderer env_g))
   \<and> m_bgFloat (new_renderer env_g) = colorToFloat32Array (background (colors env_g))
   \<and> slot (rect_floats (onResize env_g (new_renderer env_g))) 0 = viewport_rect env_g
   \<and> slot (rect_floats (onThemeChanged env_g (new_renderer env_g))) 0 = viewport_rect env_g
   \<and> grid_ok env_g grid_g \<and> codes_ok env_g grid_g
   \<and> (\<exists>st'. updateBackgrounds env_g grid_g (new_renderer env_g) = Inr st'
           \<and> slot (rect_floats st') 0 = slot (rect_floats (new_renderer env_g)) 0)
   \<and> viewport_rect env_g = [0, 0, 70, 60, 0, 0, 0, 1]"
proof -
  have c: "m_bgFloat (new_renderer env_g) = colorToFloat32Array (background (colors env_g))"
    by (simp add: new_renderer_def updateCachedColors_def)
  have v: "viewport_rect env_g = [0, 0, 70, 60, 0, 0, 0, 1]" by code_simp
  from viewport_rectangle_in_slot_0 [OF example_g_hyps(3), of env_g grid_g] example_g_hyps c v
  show ?thesis by blast
qed


text \<open>
  Claim C1. On every well-formed grid \<open>updateBackgrounds\<close> returns with a rectangle count of
  1 plus the number of maximal horizontal runs of non-default colour, counted row by row: a
  run is not split, and a run ends with its row.
\<close>

theorem rectangle_count_is_one_plus_runs:
  assumes "grid_ok env model" and "codes_ok env model"
  shows "\<exists>st'. updateBackgrounds env model st = Inr st'
           \<and> rect_count st' = 1 + run_count env model"
  using run_count_ok [OF assms] .

theorem rectangle_count_is_one_plus_runs_witness:
  "grid_ok env_g grid_g \<and> codes_ok env_g grid_g \<and> run_count env_g grid_g = 21
   \<and> (\<exists>st'. updateBackgrounds env_g grid_g (new_renderer env_g) = Inr st'
           \<and> rect_count st' = 1 + run_count env_g grid_g)"
proof -
  have r: "run_count env_g grid_g = 21" by code_simp
  from rectangle_count_is_one_plus_runs [OF example_g_hyps(1,2)] example_g_hyps(1,2) r
  show ?thesis by blast
qed


text \<open>
  Claim C6 at the same grid of four rows of five cells in which every cell starts a run,
  drawn by a new renderer. The last cell, at column 4 of row 3, has palette colour 1 and
  covers the point (45, 70). The call returns with a count of 21, none of the rectangles in
  the slots 1 to 19 covers that point, and slot 20, where the rectangle of the last cell
  belongs, lies past the end of the buffer.
\<close>

theorem last_cell_is_left_uncovered:
  "grid_row env_w grid_w 3 ! 4 = 1 \<and> DEFAULT_COLOR = 256
   \<and> cell_covers env_w 4 3 45 70
   \<and> map_sum id
        (\<lambda>st'. (rect_count st',
                filter (\<lambda>k. rect_covers (slot (rect_floats st') k) 45 70) [1..<20],
                slot (rect_floats st') 20))
        (updateBackgrounds env_w grid_w (new_renderer env_w))
      = Inr (21, [], [])"
  by code_simp

end
